theory Spec2Isabelle
  imports Main "HOL-Library.Word"
begin

unbundle bit_operations_syntax

section \<open>Text\<close>

text \<open>
  A Python \<open>str\<close> is modelled as a \<open>string\<close>: a list of characters, each a code
  point in the range 0..255. The character classes below are the ones CPython uses
  for \<open>str\<close> patterns and \<open>str\<close> methods, read off on that range.
\<close>

definition cp :: "char \<Rightarrow> nat" where
  "cp c = of_char c"

definition NL :: char where
  "NL = CHR 0x0A"

definition CR :: char where
  "CR = CHR 0x0D"

text \<open>\<open>str.isspace\<close>, which is also the class \<open>\s\<close> of \<open>re\<close> on a \<open>str\<close> pattern.\<close>

definition is_space :: "char \<Rightarrow> bool" where
  "is_space c = ((9 \<le> cp c \<and> cp c \<le> 13) \<or> (28 \<le> cp c \<and> cp c \<le> 32)
     \<or> cp c = 133 \<or> cp c = 160)"

text \<open>The class \<open>\w\<close>: alphanumeric in the Unicode sense, or the underscore.\<close>

definition is_word :: "char \<Rightarrow> bool" where
  "is_word c = ((48 \<le> cp c \<and> cp c \<le> 57) \<or> (65 \<le> cp c \<and> cp c \<le> 90) \<or> cp c = 95
     \<or> (97 \<le> cp c \<and> cp c \<le> 122)
     \<or> cp c = 170 \<or> cp c = 178 \<or> cp c = 179 \<or> cp c = 181 \<or> cp c = 185 \<or> cp c = 186
     \<or> (188 \<le> cp c \<and> cp c \<le> 190)
     \<or> (192 \<le> cp c \<and> cp c \<le> 214) \<or> (216 \<le> cp c \<and> cp c \<le> 246) \<or> 248 \<le> cp c)"

text \<open>The line boundaries of \<open>str.splitlines\<close>.\<close>

definition is_linebreak :: "char \<Rightarrow> bool" where
  "is_linebreak c = ((10 \<le> cp c \<and> cp c \<le> 13) \<or> (28 \<le> cp c \<and> cp c \<le> 30) \<or> cp c = 133)"

text \<open>
  \<open>str.splitlines()\<close>: the text is cut at every line boundary, \<open>\r\n\<close> counting as
  one; the boundaries are dropped and no empty line follows a final boundary.
  \<open>cur\<close> holds the current line, reversed.
\<close>

fun splitlines_from :: "string \<Rightarrow> string \<Rightarrow> string list" where
  "splitlines_from cur [] = (if cur = [] then [] else [rev cur])"
| "splitlines_from cur [c] =
     (if is_linebreak c then [rev cur] else [rev (c # cur)])"
| "splitlines_from cur (c # d # cs) =
     (if c = CR \<and> d = NL then rev cur # splitlines_from [] cs
      else if is_linebreak c then rev cur # splitlines_from [] (d # cs)
      else splitlines_from (c # cur) (d # cs))"

definition splitlines :: "string \<Rightarrow> string list" where
  "splitlines s = splitlines_from [] s"

text \<open>\<open>sub in s\<close> on strings: \<open>sub\<close> occurs in \<open>s\<close> as a contiguous run.\<close>

fun startswith :: "string \<Rightarrow> string \<Rightarrow> bool" where
  "startswith s [] = True"
| "startswith [] (p # ps) = False"
| "startswith (c # cs) (p # ps) = (c = p \<and> startswith cs ps)"

fun str_in :: "string \<Rightarrow> string \<Rightarrow> bool" where
  "str_in sub [] = (sub = [])"
| "str_in sub (c # cs) = (startswith (c # cs) sub \<or> str_in sub cs)"

text \<open>\<open>str(n)\<close> for an integer: decimal digits, a minus sign before a negative one.\<close>

definition digit_char :: "nat \<Rightarrow> char" where
  "digit_char d = char_of (48 + d)"

fun str_nat :: "nat \<Rightarrow> string" where
  "str_nat n = (if n < 10 then [digit_char n] else str_nat (n div 10) @ [digit_char (n mod 10)])"

definition str_int :: "int \<Rightarrow> string" where
  "str_int i = (if i < 0 then CHR ''-'' # str_nat (nat (- i)) else str_nat (nat i))"

text \<open>\<open>sep.join(xs)\<close>.\<close>

fun join :: "string \<Rightarrow> string list \<Rightarrow> string" where
  "join sep [] = []"
| "join sep [x] = x"
| "join sep (x # y # ys) = x @ sep @ join sep (y # ys)"

declare str_nat.simps [simp del]

section \<open>Regular expressions\<close>

text \<open>
  The two patterns of the program use anchors, literal characters, a character
  class under \<open>*\<close> or \<open>+\<close>, and one capturing group. A pattern is the list of its
  items in order, as the compiled program of \<open>re\<close> is; the group is a pair of
  marks around the items it encloses.
\<close>

datatype cls = Space | Word | Dot

datatype rx = Bol | Lit char | Star cls | Plus cls | MarkOpen | MarkClose

text \<open>Without \<open>re.DOTALL\<close> the dot is any character but the newline.\<close>

fun in_cls :: "cls \<Rightarrow> char \<Rightarrow> bool" where
  "in_cls Space c = is_space c"
| "in_cls Word c = is_word c"
| "in_cls Dot c = (c \<noteq> NL)"

text \<open>
  A matcher state: whether the position is at the start of a line (the start of the
  text, or just after a newline: \<open>^\<close> under \<open>re.MULTILINE\<close>), the text still to
  read, and the text that was left at each mark passed so far.
\<close>

record mstate =
  at_bol :: bool
  rest :: string
  marks :: "string list"

text \<open>
  The engine backtracks: an item yields the states it can leave, in the order
  the engine tries them. A greedy repetition tries the longest run first.
\<close>

fun star :: "cls \<Rightarrow> bool \<Rightarrow> string \<Rightarrow> (bool \<times> string) list" where
  "star k b [] = [(b, [])]"
| "star k b (c # cs) = (if in_cls k c then star k (c = NL) cs else []) @ [(b, c # cs)]"

fun plus :: "cls \<Rightarrow> string \<Rightarrow> (bool \<times> string) list" where
  "plus k [] = []"
| "plus k (c # cs) = (if in_cls k c then star k (c = NL) cs else [])"

fun rx_item :: "rx \<Rightarrow> mstate \<Rightarrow> mstate list" where
  "rx_item Bol st = (if at_bol st then [st] else [])"
| "rx_item (Lit a) st =
     (case rest st of [] \<Rightarrow> []
      | c # cs \<Rightarrow> if c = a then [st\<lparr>at_bol := (c = NL), rest := cs\<rparr>] else [])"
| "rx_item (Star k) st = map (\<lambda>(b, s). st\<lparr>at_bol := b, rest := s\<rparr>) (star k (at_bol st) (rest st))"
| "rx_item (Plus k) st = map (\<lambda>(b, s). st\<lparr>at_bol := b, rest := s\<rparr>) (plus k (rest st))"
| "rx_item MarkOpen st = [st\<lparr>marks := marks st @ [rest st]\<rparr>]"
| "rx_item MarkClose st = [st\<lparr>marks := marks st @ [rest st]\<rparr>]"

fun rx_match :: "rx list \<Rightarrow> mstate \<Rightarrow> mstate list" where
  "rx_match [] st = [st]"
| "rx_match (r # rs) st = concat (map (rx_match rs) (rx_item r st))"

text \<open>
  \<open>re.search\<close>: the start positions are tried from left to right, and the first way
  the engine finds at the first position that has one is the match.
\<close>

fun rx_search :: "rx list \<Rightarrow> bool \<Rightarrow> string \<Rightarrow> mstate option" where
  "rx_search p b [] = (case rx_match p \<lparr>at_bol = b, rest = [], marks = []\<rparr> of
       [] \<Rightarrow> None | m # _ \<Rightarrow> Some m)"
| "rx_search p b (c # cs) = (case rx_match p \<lparr>at_bol = b, rest = c # cs, marks = []\<rparr> of
       [] \<Rightarrow> rx_search p (c = NL) cs | m # _ \<Rightarrow> Some m)"

definition re_search :: "rx list \<Rightarrow> string \<Rightarrow> mstate option" where
  "re_search p s = rx_search p True s"

text \<open>The text of group 1: what was read between the first two marks.\<close>

definition group1 :: "mstate \<Rightarrow> string" where
  "group1 m = (case marks m of
       a # b # _ \<Rightarrow> take (length a - length b) a
     | _ \<Rightarrow> [])"

text \<open>
  \<open>re.findall\<close> with one group: the matches from left to right, each search
  starting where the last match ended, and of each match the text of the group.
  After a match that read nothing the scan moves on by one character.
\<close>

function findall_from :: "rx list \<Rightarrow> bool \<Rightarrow> string \<Rightarrow> string list" where
  "findall_from p b s =
     (case rx_match p \<lparr>at_bol = b, rest = s, marks = []\<rparr> of
        [] \<Rightarrow> (case s of [] \<Rightarrow> [] | c # cs \<Rightarrow> findall_from p (c = NL) cs)
      | m # _ \<Rightarrow> group1 m #
          (if length (rest m) < length s then findall_from p (at_bol m) (rest m)
           else (case s of [] \<Rightarrow> [] | c # cs \<Rightarrow> findall_from p (c = NL) cs)))"
  by pat_completeness auto
termination
  by (relation "measure (\<lambda>(p, b, s). length s)") auto

declare findall_from.simps [simp del]

definition re_findall :: "rx list \<Rightarrow> string \<Rightarrow> string list" where
  "re_findall p s = findall_from p True s"

text \<open>\<^verbatim>\<open>r'^\s*def\s+\w+\(.*\):\n\s+"""'\<close>\<close>

definition docstring_rx :: "rx list" where
  "docstring_rx = [Bol, Star Space, Lit CHR ''d'', Lit CHR ''e'', Lit CHR ''f'', Plus Space,
     Plus Word, Lit CHR ''('', Star Dot, Lit CHR '')'', Lit CHR '':'', Lit NL, Plus Space,
     Lit CHR 0x22, Lit CHR 0x22, Lit CHR 0x22]"

text \<open>\<^verbatim>\<open>r'^\s*def\s+(\w+)\('\<close>\<close>

definition def_rx :: "rx list" where
  "def_rx = [Bol, Star Space, Lit CHR ''d'', Lit CHR ''e'', Lit CHR ''f'', Plus Space,
     MarkOpen, Plus Word, MarkClose, Lit CHR ''('']"

section \<open>JSON values and \<open>json.dumps\<close>\<close>

text \<open>
  A value of type \<open>Any\<close> that came out of a JSON body. A float is carried as the
  text \<open>float.__repr__\<close> gives for it, which is what \<open>json.dumps\<close> writes. A
  \<open>dict\<close> keeps its insertion order.
\<close>

datatype json =
    JNull
  | JBool bool
  | JInt int
  | JFloat string
  | JStr string
  | JList "json list"
  | JObj "(string \<times> json) list"

text \<open>\<open>d.get(k, default)\<close>.\<close>

definition dict_get :: "('k \<rightharpoonup> 'v) \<Rightarrow> 'k \<Rightarrow> 'v \<Rightarrow> 'v" where
  "dict_get d k dflt = (case d k of None \<Rightarrow> dflt | Some v \<Rightarrow> v)"

definition hex_digit :: "nat \<Rightarrow> char" where
  "hex_digit d = (if d < 10 then char_of (48 + d) else char_of (87 + d))"

text \<open>
  The string encoder of \<open>json\<close> with \<open>ensure_ascii=False\<close>: only the quote, the
  backslash and the control characters below 0x20 are escaped.
\<close>

definition escape_char :: "char \<Rightarrow> string" where
  "escape_char c =
     (if c = CHR 0x22 then [CHR 0x5C, CHR 0x22]
      else if c = CHR 0x5C then [CHR 0x5C, CHR 0x5C]
      else if c = CHR 0x08 then [CHR 0x5C, CHR ''b'']
      else if c = CHR 0x0C then [CHR 0x5C, CHR ''f'']
      else if c = NL then [CHR 0x5C, CHR ''n'']
      else if c = CR then [CHR 0x5C, CHR ''r'']
      else if c = CHR 0x09 then [CHR 0x5C, CHR ''t'']
      else if cp c < 32 then [CHR 0x5C, CHR ''u'', CHR ''0'', CHR ''0'',
                              hex_digit (cp c div 16), hex_digit (cp c mod 16)]
      else [c])"

definition encode_basestring :: "string \<Rightarrow> string" where
  "encode_basestring s = CHR 0x22 # concat (map escape_char s) @ [CHR 0x22]"

text \<open>A newline and the indentation of a nesting level, with \<open>indent=2\<close>.\<close>

definition newline_indent :: "nat \<Rightarrow> string" where
  "newline_indent level = NL # replicate (2 * level) CHR '' ''"

fun json_encode :: "nat \<Rightarrow> json \<Rightarrow> string"
  and json_encode_items :: "nat \<Rightarrow> json list \<Rightarrow> string list"
  and json_encode_pairs :: "nat \<Rightarrow> (string \<times> json) list \<Rightarrow> string list" where
  "json_encode level JNull = ''null''"
| "json_encode level (JBool b) = (if b then ''true'' else ''false'')"
| "json_encode level (JInt i) = str_int i"
| "json_encode level (JFloat r) = r"
| "json_encode level (JStr s) = encode_basestring s"
| "json_encode level (JList xs) =
     (if xs = [] then ''[]''
      else ''['' @ newline_indent (level + 1)
           @ join ('','' @ newline_indent (level + 1)) (json_encode_items (level + 1) xs)
           @ newline_indent level @ '']'')"
| "json_encode level (JObj kvs) =
     (if kvs = [] then ''{}''
      else ''{'' @ newline_indent (level + 1)
           @ join ('','' @ newline_indent (level + 1)) (json_encode_pairs (level + 1) kvs)
           @ newline_indent level @ ''}'')"
| "json_encode_items level [] = []"
| "json_encode_items level (x # xs) = json_encode level x # json_encode_items level xs"
| "json_encode_pairs level [] = []"
| "json_encode_pairs level ((k, v) # kvs) =
     (encode_basestring k @ '': '' @ json_encode level v) # json_encode_pairs level kvs"

text \<open>\<open>json.dumps(obj, ensure_ascii=False, indent=2)\<close>.\<close>

definition json_dumps :: "json \<Rightarrow> string" where
  "json_dumps obj = json_encode 0 obj"

section \<open>SHA-256 of the UTF-8 encoding\<close>

type_synonym byte = "8 word"
type_synonym w32 = "32 word"
type_synonym hstate = "w32 \<times> w32 \<times> w32 \<times> w32 \<times> w32 \<times> w32 \<times> w32 \<times> w32"

text \<open>\<open>text.encode("utf-8")\<close>: one byte below 0x80, two bytes from there to 0xFF.\<close>

definition utf8_char :: "char \<Rightarrow> byte list" where
  "utf8_char c =
     (if cp c < 128 then [of_nat (cp c)]
      else [of_nat (192 + cp c div 64), of_nat (128 + cp c mod 64)])"

definition utf8_encode :: "string \<Rightarrow> byte list" where
  "utf8_encode s = concat (map utf8_char s)"

definition rotr :: "nat \<Rightarrow> w32 \<Rightarrow> w32" where
  "rotr n x = drop_bit n x OR push_bit (32 - n) x"

definition Ch :: "w32 \<Rightarrow> w32 \<Rightarrow> w32 \<Rightarrow> w32" where
  "Ch x y z = (x AND y) XOR (NOT x AND z)"

definition Maj :: "w32 \<Rightarrow> w32 \<Rightarrow> w32 \<Rightarrow> w32" where
  "Maj x y z = (x AND y) XOR (x AND z) XOR (y AND z)"

definition bsig0 :: "w32 \<Rightarrow> w32" where
  "bsig0 x = rotr 2 x XOR rotr 13 x XOR rotr 22 x"

definition bsig1 :: "w32 \<Rightarrow> w32" where
  "bsig1 x = rotr 6 x XOR rotr 11 x XOR rotr 25 x"

definition ssig0 :: "w32 \<Rightarrow> w32" where
  "ssig0 x = rotr 7 x XOR rotr 18 x XOR drop_bit 3 x"

definition ssig1 :: "w32 \<Rightarrow> w32" where
  "ssig1 x = rotr 17 x XOR rotr 19 x XOR drop_bit 10 x"

definition sha_K :: "w32 list" where
  "sha_K = [
     0x428A2F98, 0x71374491, 0xB5C0FBCF, 0xE9B5DBA5, 0x3956C25B, 0x59F111F1,
     0x923F82A4, 0xAB1C5ED5, 0xD807AA98, 0x12835B01, 0x243185BE, 0x550C7DC3,
     0x72BE5D74, 0x80DEB1FE, 0x9BDC06A7, 0xC19BF174, 0xE49B69C1, 0xEFBE4786,
     0x0FC19DC6, 0x240CA1CC, 0x2DE92C6F, 0x4A7484AA, 0x5CB0A9DC, 0x76F988DA,
     0x983E5152, 0xA831C66D, 0xB00327C8, 0xBF597FC7, 0xC6E00BF3, 0xD5A79147,
     0x06CA6351, 0x14292967, 0x27B70A85, 0x2E1B2138, 0x4D2C6DFC, 0x53380D13,
     0x650A7354, 0x766A0ABB, 0x81C2C92E, 0x92722C85, 0xA2BFE8A1, 0xA81A664B,
     0xC24B8B70, 0xC76C51A3, 0xD192E819, 0xD6990624, 0xF40E3585, 0x106AA070,
     0x19A4C116, 0x1E376C08, 0x2748774C, 0x34B0BCB5, 0x391C0CB3, 0x4ED8AA4A,
     0x5B9CCA4F, 0x682E6FF3, 0x748F82EE, 0x78A5636F, 0x84C87814, 0x8CC70208,
     0x90BEFFFA, 0xA4506CEB, 0xBEF9A3F7, 0xC67178F2]"

definition sha_H0 :: hstate where
  "sha_H0 = (0x6A09E667, 0xBB67AE85, 0x3C6EF372, 0xA54FF53A, 0x510E527F, 0x9B05688C,
     0x1F83D9AB, 0x5BE0CD19)"

text \<open>The message, a 1 bit, zero bits up to 56 bytes modulo 64, the bit length on 8 bytes.\<close>

definition be_bytes :: "64 word \<Rightarrow> byte list" where
  "be_bytes n = map (\<lambda>i. ucast (drop_bit (8 * i) n)) (rev [0..<8])"

definition sha_pad :: "byte list \<Rightarrow> byte list" where
  "sha_pad m = m @ [0x80] @ replicate ((119 - length m mod 64) mod 64) 0
     @ be_bytes (of_nat (8 * length m))"

fun be_words :: "byte list \<Rightarrow> w32 list" where
  "be_words (a # b # c # d # bs) =
     (push_bit 24 (ucast a) OR push_bit 16 (ucast b) OR push_bit 8 (ucast c) OR ucast d)
       # be_words bs"
| "be_words _ = []"

fun schedule :: "nat \<Rightarrow> w32 list \<Rightarrow> w32 list" where
  "schedule 0 w = w"
| "schedule (Suc n) w =
     schedule n (w @ [ssig1 (w ! (length w - 2)) + w ! (length w - 7)
                      + ssig0 (w ! (length w - 15)) + w ! (length w - 16)])"

definition sha_round :: "w32 \<times> w32 \<Rightarrow> hstate \<Rightarrow> hstate" where
  "sha_round kw v =
     (case (kw, v) of ((k, w), (a, b, c, d, e, f, g, h)) \<Rightarrow>
        let t1 = h + bsig1 e + Ch e f g + k + w;
            t2 = bsig0 a + Maj a b c
        in (t1 + t2, a, b, c, d + t1, e, f, g))"

definition hstate_add :: "hstate \<Rightarrow> hstate \<Rightarrow> hstate" where
  "hstate_add u v =
     (case (u, v) of ((a, b, c, d, e, f, g, h), (a', b', c', d', e', f', g', h')) \<Rightarrow>
        (a + a', b + b', c + c', d + d', e + e', f + f', g + g', h + h'))"

definition sha_block :: "hstate \<Rightarrow> w32 list \<Rightarrow> hstate" where
  "sha_block hs ws = hstate_add hs (fold sha_round (zip sha_K (schedule 48 ws)) hs)"

function sha_blocks :: "hstate \<Rightarrow> w32 list \<Rightarrow> hstate" where
  "sha_blocks hs ws =
     (if length ws < 16 then hs else sha_blocks (sha_block hs (take 16 ws)) (drop 16 ws))"
  by pat_completeness auto
termination
  by (relation "measure (\<lambda>(hs, ws). length ws)") auto

declare sha_blocks.simps [simp del]

definition hex8 :: "w32 \<Rightarrow> string" where
  "hex8 x = map (\<lambda>i. hex_digit (unat (drop_bit (4 * i) x AND 0xF))) (rev [0..<8])"

definition sha256_hexdigest :: "byte list \<Rightarrow> string" where
  "sha256_hexdigest m =
     (case sha_blocks sha_H0 (be_words (sha_pad m)) of (a, b, c, d, e, f, g, h) \<Rightarrow>
        concat (map hex8 [a, b, c, d, e, f, g, h]))"

text \<open>\<open>_sha256\<close> of the program.\<close>

definition sha256_text :: "string \<Rightarrow> string" where
  "sha256_text text = sha256_hexdigest (utf8_encode text)"

section \<open>Models\<close>

record TaskRequest =
  req_capability :: string
  req_inputs :: "string \<rightharpoonup> json"
  req_context :: "(string \<rightharpoonup> json) option"
  req_policy :: "string option"
  req_callback_url :: "string option"

record Artifact =
  art_name :: string
  art_path :: string
  art_sha256 :: "string option"

record Fact =
  fact_type :: string
  fact_data :: "(string \<times> json) list"

record TaskResult =
  res_task_id :: string
  res_status :: string
  res_capability :: string
  res_facts :: "Fact list"
  res_artifacts :: "Artifact list"
  res_sources :: "(string \<times> json) list list"
  res_timestamps :: "(string \<times> string) list"
  res_stable_id :: string
  res_message :: "string option"

record TaskStatus =
  st_task_id :: string
  st_status :: string
  st_result :: "TaskResult option"

record Capability =
  cap_name :: string
  cap_description :: string
  cap_inputs_schema :: "(string \<times> string) list"
  cap_policy :: string

definition CAPABILITIES :: "Capability list" where
  "CAPABILITIES = [
     \<lparr>cap_name = ''code_quality'',
      cap_description =
        ''Analyze Python code for rough issues (TODOs, long lines, missing docstrings).'',
      cap_inputs_schema = [(''code'', ''str''), (''filename'', ''str'')],
      cap_policy = ''safe-readonly''\<rparr>,
     \<lparr>cap_name = ''summarize_code'',
      cap_description = ''Summarize the purpose of a Python file (heuristic).'',
      cap_inputs_schema = [(''code'', ''str''), (''filename'', ''str'')],
      cap_policy = ''safe-readonly''\<rparr>]"

section \<open>Storage\<close>

text \<open>
  The state of the process: the task table, the artifact directory fixed when the
  module is loaded, and the files on disk (path to text; a POSIX file system, where
  text written in UTF-8 reads back as it was written).
\<close>

record world =
  TASKS :: "string \<rightharpoonup> TaskStatus"
  ARTIFACT_DIR :: string
  files :: "string \<rightharpoonup> string"

text \<open>\<open>os.path.join\<close> on two components (POSIX).\<close>

definition os_path_join :: "string \<Rightarrow> string \<Rightarrow> string" where
  "os_path_join a b =
     (if startswith b ''/'' then b
      else if a = [] \<or> last a = CHR ''/'' then a @ b
      else a @ ''/'' @ b)"

definition artifact_path :: "world \<Rightarrow> string \<Rightarrow> string" where
  "artifact_path w name = os_path_join (ARTIFACT_DIR w) name"

section \<open>Engine\<close>

text \<open>What a handler can raise. An exception that is not an \<open>HTTPException\<close> is not caught.\<close>

datatype exn = HTTPException nat string | AttributeError | TypeError

definition lint_issue :: "int \<Rightarrow> string \<Rightarrow> (string \<times> json) list" where
  "lint_issue idx msg = [(''line'', JInt idx), (''message'', JStr msg)]"

text \<open>
  The loop over \<open>enumerate(lines, start=1)\<close>: \<open>idx\<close> is the number of the line at
  the head, \<open>issues\<close> the list appended to so far.
\<close>

fun scan_lines :: "int \<Rightarrow> string list \<Rightarrow> (string \<times> json) list list \<Rightarrow> (string \<times> json) list list" where
  "scan_lines idx [] issues = issues"
| "scan_lines idx (line # lines) issues =
     (let issues1 = (if str_in ''TODO'' line
                     then issues @ [lint_issue idx ''TODO found''] else issues);
          issues2 = (if length line > 100
                     then issues1 @ [lint_issue idx ''Line longer than 100 chars''] else issues1)
      in scan_lines (idx + 1) lines issues2)"

definition docstring_issue :: "(string \<times> json) list" where
  "docstring_issue = lint_issue 1 ''Functions may lack docstrings (heuristic)''"

definition lint_issues :: "string \<Rightarrow> (string \<times> json) list list" where
  "lint_issues code =
     (let issues = scan_lines 1 (splitlines code) []
      in if re_search docstring_rx code = None then issues @ [docstring_issue] else issues)"

definition lint_report :: "json \<Rightarrow> (string \<times> json) list list \<Rightarrow> json" where
  "lint_report filename issues =
     JObj [(''filename'', filename), (''issue_count'', JInt (int (length issues))),
           (''issues'', JList (map JObj issues))]"

definition in_memory_source :: "json \<Rightarrow> (string \<times> json) list" where
  "in_memory_source filename = [(''type'', JStr ''in_memory_code''), (''ref'', filename)]"

text \<open>
  \<open>run_task\<close>. \<open>now1\<close> and \<open>now2\<close> are what \<open>datetime.utcnow().isoformat()\<close> gives
  at the two readings of the clock. \<open>code\<close> is whatever the request holds under that
  key: \<open>splitlines\<close> exists on a \<open>str\<close> only, and \<open>re.findall\<close> takes a \<open>str\<close> only.
  Opening the report file and writing it are taken to succeed. A \<open>str\<close> is a list
  of the code points 0 to 255, all of which UTF-8 encodes. A string that holds a
  lone surrogate, which a JSON body can carry in the \<open>filename\<close> and which makes
  \<open>f.write\<close> raise \<open>UnicodeEncodeError\<close> after \<open>open\<close> created the file, is outside
  the model, in which every write succeeds.
\<close>

definition run_task :: "world \<Rightarrow> string \<Rightarrow> string \<Rightarrow> string \<Rightarrow> TaskRequest \<Rightarrow> exn + (TaskResult \<times> world)" where
  "run_task w now1 now2 task_id req =
     (let queued = now1 @ ''Z'';
          finish = (\<lambda>facts artifacts sources message w'.
            Inr (\<lparr>res_task_id = task_id,
                  res_status = ''SUCCEEDED'',
                  res_capability = req_capability req,
                  res_facts = facts,
                  res_artifacts = artifacts,
                  res_sources = sources,
                  res_timestamps = [(''queued'', queued), (''ended'', now2 @ ''Z'')],
                  res_stable_id = ''run_'' @ task_id,
                  res_message = Some message\<rparr>, w'))
      in if req_capability req = ''code_quality'' then
           (let code = dict_get (req_inputs req) ''code'' (JStr []);
                filename = dict_get (req_inputs req) ''filename'' (JStr ''unknown.py'')
            in case code of
                 JStr text \<Rightarrow>
                   (let issues = lint_issues text;
                        report = lint_report filename issues;
                        report_json = json_dumps report;
                        name = task_id @ ''_lint_report.json'';
                        path = artifact_path w name;
                        w' = w\<lparr>files := (files w)(path \<mapsto> report_json)\<rparr>
                    in finish
                         (map (\<lambda>i. \<lparr>fact_type = ''lint_issue'', fact_data = i\<rparr>) issues)
                         [\<lparr>art_name = name, art_path = path,
                           art_sha256 = Some (sha256_text report_json)\<rparr>]
                         [in_memory_source filename]
                         (str_int (int (length issues)) @ '' potential issues found.'')
                         w')
               | _ \<Rightarrow> Inl AttributeError)
         else if req_capability req = ''summarize_code'' then
           (let code = dict_get (req_inputs req) ''code'' (JStr []);
                filename = dict_get (req_inputs req) ''filename'' (JStr ''unknown.py'')
            in case code of
                 JStr text \<Rightarrow>
                   (let funcs = re_findall def_rx text
                    in finish
                         [\<lparr>fact_type = ''functions'',
                           fact_data = [(''names'', JList (map JStr funcs))]\<rparr>]
                         []
                         [in_memory_source filename]
                         (''This file defines: ''
                            @ (if funcs \<noteq> [] then join '', '' funcs else ''no functions detected''))
                         w)
               | _ \<Rightarrow> Inl TypeError)
         else finish [] [] [] ''Unknown capability'' w)"

section \<open>API\<close>



text \<open>
  \<open>create_task\<close>. \<open>hex\<close> is \<open>uuid4().hex\<close>, the 32 hexadecimal digits of a fresh
  random UUID.
\<close>

definition create_task :: "world \<Rightarrow> string \<Rightarrow> string \<Rightarrow> string \<Rightarrow> TaskRequest \<Rightarrow> (exn + (string \<times> json) list) \<times> world" where
  "create_task w hex now1 now2 req =
     (if req_capability req \<notin> set (map cap_name CAPABILITIES)
      then (Inl (HTTPException 400 ''Unknown capability''), w)
      else
        let task_id = ''t-'' @ take 8 hex;
            w1 = w\<lparr>TASKS := (TASKS w)(task_id \<mapsto>
                   \<lparr>st_task_id = task_id, st_status = ''SCHEDULED'', st_result = None\<rparr>)\<rparr>
        in case run_task w1 now1 now2 task_id req of
             Inl e \<Rightarrow> (Inl e, w1)
           | Inr (result, w2) \<Rightarrow>
               (Inr [(''task_id'', JStr task_id), (''status'', JStr ''SCHEDULED'')],
                w2\<lparr>TASKS := (TASKS w2)(task_id \<mapsto>
                   \<lparr>st_task_id = task_id, st_status = ''SUCCEEDED'', st_result = Some result\<rparr>)\<rparr>))"

definition task_status :: "world \<Rightarrow> string \<Rightarrow> (exn + TaskStatus) \<times> world" where
  "task_status w task_id =
     (case TASKS w task_id of
        None \<Rightarrow> (Inl (HTTPException 404 ''Task not found''), w)
      | Some st \<Rightarrow> (Inr st, w))"

text \<open>
  The process over time: it starts with an empty task table and then serves
  requests one after the other.
\<close>

datatype request = PostTasks string string string TaskRequest | GetTask string

fun serve :: "world \<Rightarrow> request \<Rightarrow> world" where
  "serve w (PostTasks hex now1 now2 req) = snd (create_task w hex now1 now2 req)"
| "serve w (GetTask task_id) = snd (task_status w task_id)"

definition startup :: "string \<Rightarrow> (string \<rightharpoonup> string) \<Rightarrow> world" where
  "startup dir disk = \<lparr>TASKS = Map.empty, ARTIFACT_DIR = dir, files = disk\<rparr>"


text \<open>The identifiers \<open>create_task\<close> has generated while serving a list of requests.\<close>

fun issued :: "request list \<Rightarrow> string set" where
  "issued [] = {}"
| "issued (PostTasks hex now1 now2 req # rs) =
     (if req_capability req \<in> set (map cap_name CAPABILITIES)
      then insert (''t-'' @ take 8 hex) (issued rs) else issued rs)"
| "issued (GetTask task_id # rs) = issued rs"

section \<open>Requests\<close>


text \<open>The body the command-line client posts for a file it has read.\<close>

definition agent_payload :: "string \<Rightarrow> string \<Rightarrow> string \<Rightarrow> TaskRequest" where
  "agent_payload capability code filename =
     \<lparr>req_capability = capability,
      req_inputs = [''code'' \<mapsto> JStr code, ''filename'' \<mapsto> JStr filename],
      req_context = None, req_policy = Some ''safe-readonly'', req_callback_url = None\<rparr>"

text \<open>Two texts used as examples: the one of the end-to-end scenario, and one whose
  first line has \<open>TODO\<close> twice and whose second line is long and has \<open>TODO\<close>.\<close>

definition scenario_code :: string where
  "scenario_code = ''x = 1  # TODO fix'' @ [NL]"

definition two_line_code :: string where
  "two_line_code = ''# TODO TODO'' @ [NL] @ replicate 101 CHR ''x'' @ '' # TODO''"

text \<open>A function whose docstring comes after a blank line, and the text of the second
  end-to-end scenario.\<close>

definition blank_line_code :: string where
  "blank_line_code = ''def f():'' @ [NL, NL] @ ''    '' @ [CHR 0x22, CHR 0x22, CHR 0x22] @ ''doc''
     @ [CHR 0x22, CHR 0x22, CHR 0x22] @ [NL]"

definition foo_bar_code :: string where
  "foo_bar_code = ''def foo():'' @ [NL] @ ''    pass'' @ [NL] @ ''def bar():'' @ [NL] @ ''    pass'' @ [NL]"

section \<open>Notions used in the statements\<close>

text \<open>Whether a position is at the start of a line after \<open>pre\<close> has been read from a
  position where that was \<open>b\<close>.\<close>

definition bol_after :: "bool \<Rightarrow> string \<Rightarrow> bool" where
  "bol_after b pre = (if pre = [] then b else last pre = NL)"

text \<open>A lint issue as a fact of the result.\<close>

definition lint_fact :: "(string \<times> json) list \<Rightarrow> Fact" where
  "lint_fact i = \<lparr>fact_type = ''lint_issue'', fact_data = i\<rparr>"

text \<open>
  The issues of one line as the specification words them: one for a line that
  contains \<open>TODO\<close>, then one for a line longer than 100 characters.
\<close>

definition spec_line_issues :: "int \<Rightarrow> string \<Rightarrow> (string \<times> json) list list" where
  "spec_line_issues idx line =
     (if str_in ''TODO'' line then [lint_issue idx ''TODO found''] else [])
     @ (if 100 < length line then [lint_issue idx ''Line longer than 100 chars''] else [])"

section \<open>The text functions\<close>

lemma bol_after_Nil [simp]: "bol_after b [] = b"
  by (simp add: bol_after_def)

lemma bol_after_Cons [simp]: "bol_after b (c # cs) = bol_after (c = NL) cs"
  by (simp add: bol_after_def)

lemma bol_after_append [simp]: "bol_after b (xs @ ys) = bol_after (bol_after b xs) ys"
  by (induction xs arbitrary: b) simp_all

lemma startswith_iff: "startswith s p \<longleftrightarrow> (\<exists>post. s = p @ post)"
  by (induction s p rule: startswith.induct) auto

lemma str_in_iff: "str_in sub s \<longleftrightarrow> (\<exists>pre post. s = pre @ sub @ post)"
proof (induction s)
  case Nil
  then show ?case by auto
next
  case (Cons c cs)
  show ?case
  proof
    assume "str_in sub (c # cs)"
    then consider "startswith (c # cs) sub" | "str_in sub cs" by auto
    then show "\<exists>pre post. c # cs = pre @ sub @ post"
    proof cases
      case 1
      then obtain post where "c # cs = sub @ post" by (auto simp: startswith_iff)
      then have "c # cs = [] @ sub @ post" by simp
      then show ?thesis by blast
    next
      case 2
      then obtain pre post where "cs = pre @ sub @ post" using Cons.IH by blast
      then have "c # cs = (c # pre) @ sub @ post" by simp
      then show ?thesis by blast
    qed
  next
    assume "\<exists>pre post. c # cs = pre @ sub @ post"
    then obtain pre post where eq: "c # cs = pre @ sub @ post" by blast
    show "str_in sub (c # cs)"
    proof (cases pre)
      case Nil
      then have "startswith (c # cs) sub" using eq by (auto simp: startswith_iff)
      then show ?thesis by simp
    next
      case (Cons d pre')
      then have "cs = pre' @ sub @ post" using eq by simp
      then have "str_in sub cs" using Cons.IH by blast
      then show ?thesis by simp
    qed
  qed
qed

lemma star_sound:
  "(b', s') \<in> set (star k b s) \<Longrightarrow> \<exists>pre. s = pre @ s' \<and> list_all (in_cls k) pre \<and> b' = bol_after b pre"
proof (induction s arbitrary: b)
  case Nil
  then show ?case by simp
next
  case (Cons c cs)
  from Cons.prems consider "in_cls k c" "(b', s') \<in> set (star k (c = NL) cs)" | "b' = b" "s' = c # cs"
    by (auto split: if_splits)
  then show ?case
  proof cases
    case 1
    then obtain pre where "cs = pre @ s'" "list_all (in_cls k) pre" "b' = bol_after (c = NL) pre"
      using Cons.IH by blast
    then have "c # cs = (c # pre) @ s' \<and> list_all (in_cls k) (c # pre) \<and> b' = bol_after b (c # pre)"
      using 1 by simp
    then show ?thesis by blast
  next
    case 2
    then have "c # cs = [] @ s' \<and> list_all (in_cls k) [] \<and> b' = bol_after b []" by simp
    then show ?thesis by blast
  qed
qed

lemma star_self: "(b, s) \<in> set (star k b s)"
  by (cases s) simp_all

lemma star_complete:
  "list_all (in_cls k) pre \<Longrightarrow> (bol_after b pre, s') \<in> set (star k b (pre @ s'))"
  by (induction pre arbitrary: b) (simp_all add: star_self)

lemma plus_sound:
  "(b', s') \<in> set (plus k s) \<Longrightarrow> \<exists>pre. pre \<noteq> [] \<and> s = pre @ s' \<and> list_all (in_cls k) pre \<and> b' = bol_after b pre"
proof (cases s)
  case Nil
  assume "(b', s') \<in> set (plus k s)"
  then show ?thesis using Nil by simp
next
  case (Cons c cs)
  assume "(b', s') \<in> set (plus k s)"
  then have c: "in_cls k c" and m: "(b', s') \<in> set (star k (c = NL) cs)"
    using Cons by (auto split: if_splits)
  from star_sound[OF m] obtain pre where "cs = pre @ s'" "list_all (in_cls k) pre" "b' = bol_after (c = NL) pre"
    by blast
  then have "c # pre \<noteq> [] \<and> s = (c # pre) @ s' \<and> list_all (in_cls k) (c # pre) \<and> b' = bol_after b (c # pre)"
    using Cons c by simp
  then show ?thesis by blast
qed

lemma plus_complete:
  "pre \<noteq> [] \<Longrightarrow> list_all (in_cls k) pre \<Longrightarrow> (bol_after b pre, s') \<in> set (plus k (pre @ s'))"
  by (cases pre) (simp_all add: star_complete)

lemma rx_match_Cons_iff:
  "st'' \<in> set (rx_match (r # rs) st) \<longleftrightarrow> (\<exists>st' \<in> set (rx_item r st). st'' \<in> set (rx_match rs st'))"
  by auto

lemma rx_match_nonempty_Cons:
  "rx_match (r # rs) st \<noteq> [] \<longleftrightarrow> (\<exists>st' \<in> set (rx_item r st). rx_match rs st' \<noteq> [])"
  by auto

lemma rx_match_Bol:
  "rx_match (Bol # rs) st = (if at_bol st then rx_match rs st else [])"
  by simp

lemma rx_match_Lit:
  "rx_match (Lit a # rs) st =
     (case rest st of [] \<Rightarrow> []
      | c # cs \<Rightarrow> if c = a then rx_match rs (st\<lparr>at_bol := (c = NL), rest := cs\<rparr>) else [])"
  by (simp split: list.splits)

lemma rx_match_Star_I:
  assumes "rest st = pre @ s'" "list_all (in_cls k) pre"
    and "rx_match rs (st\<lparr>at_bol := bol_after (at_bol st) pre, rest := s'\<rparr>) \<noteq> []"
  shows "rx_match (Star k # rs) st \<noteq> []"
proof -
  have "(bol_after (at_bol st) pre, s') \<in> set (star k (at_bol st) (rest st))"
    using assms(1,2) by (simp add: star_complete)
  then have "st\<lparr>at_bol := bol_after (at_bol st) pre, rest := s'\<rparr> \<in> set (rx_item (Star k) st)"
    by force
  then show ?thesis using assms(3) unfolding rx_match_nonempty_Cons by blast
qed

lemma rx_match_Plus_I:
  assumes "rest st = pre @ s'" "pre \<noteq> []" "list_all (in_cls k) pre"
    and "rx_match rs (st\<lparr>at_bol := bol_after (at_bol st) pre, rest := s'\<rparr>) \<noteq> []"
  shows "rx_match (Plus k # rs) st \<noteq> []"
proof -
  have "(bol_after (at_bol st) pre, s') \<in> set (plus k (rest st))"
    using assms(1,2,3) by (simp add: plus_complete)
  then have "st\<lparr>at_bol := bol_after (at_bol st) pre, rest := s'\<rparr> \<in> set (rx_item (Plus k) st)"
    by force
  then show ?thesis using assms(4) unfolding rx_match_nonempty_Cons by blast
qed

lemma rx_match_Star_E:
  assumes "rx_match (Star k # rs) st \<noteq> []"
  obtains pre s' where "rest st = pre @ s'" "list_all (in_cls k) pre"
    "rx_match rs (st\<lparr>at_bol := bol_after (at_bol st) pre, rest := s'\<rparr>) \<noteq> []"
proof -
  from assms obtain st' where m: "st' \<in> set (rx_item (Star k) st)" and n: "rx_match rs st' \<noteq> []"
    unfolding rx_match_nonempty_Cons by blast
  from m obtain b' s' where in_star: "(b', s') \<in> set (star k (at_bol st) (rest st))"
    and st': "st' = st\<lparr>at_bol := b', rest := s'\<rparr>" by auto
  from star_sound[OF in_star] obtain pre where "rest st = pre @ s'" "list_all (in_cls k) pre"
    "b' = bol_after (at_bol st) pre" by blast
  then show thesis using that n st' by blast
qed

lemma rx_match_Plus_E:
  assumes "rx_match (Plus k # rs) st \<noteq> []"
  obtains pre s' where "rest st = pre @ s'" "pre \<noteq> []" "list_all (in_cls k) pre"
    "rx_match rs (st\<lparr>at_bol := bol_after (at_bol st) pre, rest := s'\<rparr>) \<noteq> []"
proof -
  from assms obtain st' where m: "st' \<in> set (rx_item (Plus k) st)" and n: "rx_match rs st' \<noteq> []"
    unfolding rx_match_nonempty_Cons by blast
  from m obtain b' s' where in_plus: "(b', s') \<in> set (plus k (rest st))"
    and st': "st' = st\<lparr>at_bol := b', rest := s'\<rparr>" by auto
  from plus_sound[OF in_plus, of "at_bol st"] obtain pre where "rest st = pre @ s'" "pre \<noteq> []"
    "list_all (in_cls k) pre" "b' = bol_after (at_bol st) pre" by blast
  then show thesis using that n st' by blast
qed

lemma rx_search_None_iff:
  "rx_search p b s = None \<longleftrightarrow>
     (\<forall>pre suf. s = pre @ suf \<longrightarrow> rx_match p \<lparr>at_bol = bol_after b pre, rest = suf, marks = []\<rparr> = [])"
proof (induction s arbitrary: b)
  case Nil
  then show ?case by (auto split: list.splits)
next
  case (Cons c cs)
  show ?case
  proof
    assume a: "rx_search p b (c # cs) = None"
    then have here: "rx_match p \<lparr>at_bol = b, rest = c # cs, marks = []\<rparr> = []"
      and later: "rx_search p (c = NL) cs = None" by (auto split: list.splits)
    show "\<forall>pre suf. c # cs = pre @ suf \<longrightarrow> rx_match p \<lparr>at_bol = bol_after b pre, rest = suf, marks = []\<rparr> = []"
    proof (intro allI impI)
      fix pre suf assume eq: "c # cs = pre @ suf"
      show "rx_match p \<lparr>at_bol = bol_after b pre, rest = suf, marks = []\<rparr> = []"
      proof (cases pre)
        case Nil
        then show ?thesis using eq here by simp
      next
        case (Cons d pre')
        then have "cs = pre' @ suf" "d = c" using eq by simp_all
        then show ?thesis using later Cons.IH[of "c = NL"] Cons by simp
      qed
    qed
  next
    assume a: "\<forall>pre suf. c # cs = pre @ suf \<longrightarrow> rx_match p \<lparr>at_bol = bol_after b pre, rest = suf, marks = []\<rparr> = []"
    from a[rule_format, of "[]" "c # cs"] have here: "rx_match p \<lparr>at_bol = b, rest = c # cs, marks = []\<rparr> = []"
      by simp
    have "\<forall>pre suf. cs = pre @ suf \<longrightarrow> rx_match p \<lparr>at_bol = bol_after (c = NL) pre, rest = suf, marks = []\<rparr> = []"
    proof (intro allI impI)
      fix pre suf assume "cs = pre @ suf"
      then have "c # cs = (c # pre) @ suf" by simp
      from a[rule_format, OF this] show "rx_match p \<lparr>at_bol = bol_after (c = NL) pre, rest = suf, marks = []\<rparr> = []"
        by simp
    qed
    then have "rx_search p (c = NL) cs = None" using Cons.IH by blast
    then show "rx_search p b (c # cs) = None" using here by simp
  qed
qed

lemma rx_match_Star_lit:
  assumes "list_all (in_cls k) pre"
    and "rx_match rs \<lparr>at_bol = bol_after b pre, rest = s', marks = ms\<rparr> \<noteq> []"
  shows "rx_match (Star k # rs) \<lparr>at_bol = b, rest = pre @ s', marks = ms\<rparr> \<noteq> []"
  using assms by (intro rx_match_Star_I[where pre = pre and s' = s']) (simp_all del: rx_match.simps)

lemma rx_match_Plus_lit:
  assumes "pre \<noteq> []" "list_all (in_cls k) pre"
    and "rx_match rs \<lparr>at_bol = bol_after b pre, rest = s', marks = ms\<rparr> \<noteq> []"
  shows "rx_match (Plus k # rs) \<lparr>at_bol = b, rest = pre @ s', marks = ms\<rparr> \<noteq> []"
  using assms by (intro rx_match_Plus_I[where pre = pre and s' = s']) (simp_all del: rx_match.simps)

lemma docstring_rx_complete:
  assumes "list_all is_space ws0"
    and "ws1 \<noteq> []" "list_all is_space ws1"
    and "name \<noteq> []" "list_all is_word name"
    and "list_all (\<lambda>c. c \<noteq> NL) args"
    and "ws2 \<noteq> []" "list_all is_space ws2"
  shows "rx_match docstring_rx
           \<lparr>at_bol = True,
            rest = ws0 @ ''def'' @ ws1 @ name @ ''('' @ args @ '')'' @ '':'' @ [NL] @ ws2
                     @ [CHR 0x22, CHR 0x22, CHR 0x22] @ post,
            marks = []\<rparr> \<noteq> []"
proof -
  have sp0: "list_all (in_cls Space) ws0" and sp1: "list_all (in_cls Space) ws1"
    and sp2: "list_all (in_cls Space) ws2" and wd: "list_all (in_cls Word) name"
    and dt: "list_all (in_cls Dot) args"
    using assms by (simp_all add: list_all_iff)
  have s1: "rx_match [Lit CHR 0x22, Lit CHR 0x22, Lit CHR 0x22]
      \<lparr>at_bol = bol_after True ws2, rest = [CHR 0x22, CHR 0x22, CHR 0x22] @ post, marks = []\<rparr> \<noteq> []"
    by (simp add: rx_match_Lit)
  have s2: "rx_match [Plus Space, Lit CHR 0x22, Lit CHR 0x22, Lit CHR 0x22]
      \<lparr>at_bol = True, rest = ws2 @ [CHR 0x22, CHR 0x22, CHR 0x22] @ post, marks = []\<rparr> \<noteq> []"
    by (rule rx_match_Plus_lit[OF assms(7) sp2 s1])
  have s3: "rx_match [Lit CHR '')'', Lit CHR '':'', Lit NL, Plus Space, Lit CHR 0x22, Lit CHR 0x22, Lit CHR 0x22]
      \<lparr>at_bol = bol_after False args,
       rest = '')'' @ '':'' @ [NL] @ ws2 @ [CHR 0x22, CHR 0x22, CHR 0x22] @ post, marks = []\<rparr> \<noteq> []"
    using s2 by (simp add: rx_match_Lit del: rx_match.simps)
  have s4: "rx_match [Star Dot, Lit CHR '')'', Lit CHR '':'', Lit NL, Plus Space, Lit CHR 0x22, Lit CHR 0x22,
        Lit CHR 0x22]
      \<lparr>at_bol = False,
       rest = args @ '')'' @ '':'' @ [NL] @ ws2 @ [CHR 0x22, CHR 0x22, CHR 0x22] @ post, marks = []\<rparr> \<noteq> []"
    by (rule rx_match_Star_lit[OF dt s3])
  have s5: "rx_match [Lit CHR ''('', Star Dot, Lit CHR '')'', Lit CHR '':'', Lit NL, Plus Space, Lit CHR 0x22,
        Lit CHR 0x22, Lit CHR 0x22]
      \<lparr>at_bol = bol_after (bol_after False ws1) name,
       rest = ''('' @ args @ '')'' @ '':'' @ [NL] @ ws2 @ [CHR 0x22, CHR 0x22, CHR 0x22] @ post,
       marks = []\<rparr> \<noteq> []"
    using s4 by (simp add: rx_match_Lit NL_def del: rx_match.simps)
  have s6: "rx_match [Plus Word, Lit CHR ''('', Star Dot, Lit CHR '')'', Lit CHR '':'', Lit NL, Plus Space,
        Lit CHR 0x22, Lit CHR 0x22, Lit CHR 0x22]
      \<lparr>at_bol = bol_after False ws1,
       rest = name @ ''('' @ args @ '')'' @ '':'' @ [NL] @ ws2 @ [CHR 0x22, CHR 0x22, CHR 0x22] @ post,
       marks = []\<rparr> \<noteq> []"
    by (rule rx_match_Plus_lit[OF assms(4) wd s5])
  have s7: "rx_match [Plus Space, Plus Word, Lit CHR ''('', Star Dot, Lit CHR '')'', Lit CHR '':'', Lit NL,
        Plus Space, Lit CHR 0x22, Lit CHR 0x22, Lit CHR 0x22]
      \<lparr>at_bol = False,
       rest = ws1 @ name @ ''('' @ args @ '')'' @ '':'' @ [NL] @ ws2 @ [CHR 0x22, CHR 0x22, CHR 0x22] @ post,
       marks = []\<rparr> \<noteq> []"
    by (rule rx_match_Plus_lit[OF assms(2) sp1 s6])
  have s8: "rx_match [Lit CHR ''d'', Lit CHR ''e'', Lit CHR ''f'', Plus Space, Plus Word, Lit CHR ''('', Star Dot,
        Lit CHR '')'', Lit CHR '':'', Lit NL, Plus Space, Lit CHR 0x22, Lit CHR 0x22, Lit CHR 0x22]
      \<lparr>at_bol = bol_after True ws0,
       rest = ''def'' @ ws1 @ name @ ''('' @ args @ '')'' @ '':'' @ [NL] @ ws2
                @ [CHR 0x22, CHR 0x22, CHR 0x22] @ post,
       marks = []\<rparr> \<noteq> []"
    using s7 by (simp add: rx_match_Lit NL_def del: rx_match.simps)
  have s9: "rx_match [Star Space, Lit CHR ''d'', Lit CHR ''e'', Lit CHR ''f'', Plus Space, Plus Word, Lit CHR ''('',
        Star Dot, Lit CHR '')'', Lit CHR '':'', Lit NL, Plus Space, Lit CHR 0x22, Lit CHR 0x22, Lit CHR 0x22]
      \<lparr>at_bol = True,
       rest = ws0 @ ''def'' @ ws1 @ name @ ''('' @ args @ '')'' @ '':'' @ [NL] @ ws2
                @ [CHR 0x22, CHR 0x22, CHR 0x22] @ post,
       marks = []\<rparr> \<noteq> []"
    by (rule rx_match_Star_lit[OF sp0 s8])
  then show ?thesis
    by (simp add: docstring_rx_def rx_match_Bol del: rx_match.simps)
qed

lemma docstring_rx_sound:
  assumes "rx_match docstring_rx \<lparr>at_bol = b, rest = s, marks = []\<rparr> \<noteq> []"
  shows "\<exists>ws r. s = ws @ ''def'' @ r"
proof -
  from assms have "rx_match (Star Space # Lit CHR ''d'' # Lit CHR ''e'' # Lit CHR ''f'' # tl (tl (tl (tl (tl docstring_rx)))))
      \<lparr>at_bol = b, rest = s, marks = []\<rparr> \<noteq> []"
    by (simp add: docstring_rx_def split: if_splits)
  then obtain pre s' where s: "s = pre @ s'"
    and m: "rx_match (Lit CHR ''d'' # Lit CHR ''e'' # Lit CHR ''f'' # tl (tl (tl (tl (tl docstring_rx)))))
        \<lparr>at_bol = bol_after b pre, rest = s', marks = []\<rparr> \<noteq> []"
    by (elim rx_match_Star_E) auto
  from m obtain r where "s' = ''def'' @ r"
    by (auto simp add: rx_match_Lit simp del: rx_match.simps split: list.splits if_splits)
  then show ?thesis using s by blast
qed

lemma re_search_docstring_needs_def:
  assumes "re_search docstring_rx code \<noteq> None"
  shows "\<exists>pre post. code = pre @ ''def'' @ post"
proof -
  from assms obtain pre suf where code: "code = pre @ suf"
    and m: "rx_match docstring_rx \<lparr>at_bol = bol_after True pre, rest = suf, marks = []\<rparr> \<noteq> []"
    unfolding re_search_def rx_search_None_iff by blast
  from docstring_rx_sound[OF m] obtain ws r where "suf = ws @ ''def'' @ r" by blast
  then have "code = (pre @ ws) @ ''def'' @ r" using code by simp
  then show ?thesis by blast
qed

lemma scan_lines_append:
  "scan_lines idx lines issues = issues @ scan_lines idx lines []"
proof (induction lines arbitrary: idx issues)
  case Nil
  then show ?case by simp
next
  case (Cons l ls)
  show ?case
    using Cons.IH[of "idx + 1" "issues @ [lint_issue idx ''TODO found'']"]
          Cons.IH[of "idx + 1" "issues @ [lint_issue idx ''TODO found'', lint_issue idx ''Line longer than 100 chars'']"]
          Cons.IH[of "idx + 1" "issues @ [lint_issue idx ''Line longer than 100 chars'']"]
          Cons.IH[of "idx + 1" "issues"]
          Cons.IH[of "idx + 1" "[lint_issue idx ''TODO found'']"]
          Cons.IH[of "idx + 1" "[lint_issue idx ''TODO found'', lint_issue idx ''Line longer than 100 chars'']"]
          Cons.IH[of "idx + 1" "[lint_issue idx ''Line longer than 100 chars'']"]
    by (simp add: Let_def)
qed

lemma scan_lines_Cons:
  "scan_lines idx (l # ls) [] = spec_line_issues idx l @ scan_lines (idx + 1) ls []"
proof -
  have "scan_lines idx (l # ls) [] = scan_lines (idx + 1) ls (spec_line_issues idx l)"
    by (simp add: Let_def spec_line_issues_def)
  also have "\<dots> = spec_line_issues idx l @ scan_lines (idx + 1) ls []"
    by (rule scan_lines_append)
  finally show ?thesis .
qed

lemma scan_lines_concat:
  "scan_lines (int n) lines [] = concat (map (\<lambda>(i, l). spec_line_issues (int i) l) (enumerate n lines))"
proof (induction lines arbitrary: n)
  case Nil
  then show ?case by simp
next
  case (Cons l ls)
  have "int n + 1 = int (Suc n)" by simp
  then show ?case using Cons.IH[of "Suc n"] by (simp add: scan_lines_Cons add.commute del: scan_lines.simps)
qed


section \<open>The engine and the handlers\<close>

lemma registered_iff:
  "req_capability req \<in> set (map cap_name CAPABILITIES) \<longleftrightarrow>
     req_capability req = ''code_quality'' \<or> req_capability req = ''summarize_code''"
  by (auto simp add: CAPABILITIES_def)

lemma run_task_code_quality:
  assumes "req_capability req = ''code_quality''"
    and "dict_get (req_inputs req) ''code'' (JStr []) = JStr code"
  shows "run_task w now1 now2 task_id req =
     Inr (\<lparr>res_task_id = task_id,
           res_status = ''SUCCEEDED'',
           res_capability = ''code_quality'',
           res_facts = map lint_fact (lint_issues code),
           res_artifacts =
             [\<lparr>art_name = task_id @ ''_lint_report.json'',
               art_path = artifact_path w (task_id @ ''_lint_report.json''),
               art_sha256 = Some (sha256_text (json_dumps (lint_report
                 (dict_get (req_inputs req) ''filename'' (JStr ''unknown.py'')) (lint_issues code))))\<rparr>],
           res_sources = [in_memory_source (dict_get (req_inputs req) ''filename'' (JStr ''unknown.py''))],
           res_timestamps = [(''queued'', now1 @ ''Z''), (''ended'', now2 @ ''Z'')],
           res_stable_id = ''run_'' @ task_id,
           res_message = Some (str_int (int (length (lint_issues code))) @ '' potential issues found.'')\<rparr>,
          w\<lparr>files := (files w)(artifact_path w (task_id @ ''_lint_report.json'') \<mapsto>
             json_dumps (lint_report (dict_get (req_inputs req) ''filename'' (JStr ''unknown.py''))
               (lint_issues code)))\<rparr>)"
  using assms by (simp add: run_task_def Let_def lint_fact_def)

lemma run_task_summarize_code:
  assumes "req_capability req = ''summarize_code''"
    and "dict_get (req_inputs req) ''code'' (JStr []) = JStr code"
  shows "run_task w now1 now2 task_id req =
     Inr (\<lparr>res_task_id = task_id,
           res_status = ''SUCCEEDED'',
           res_capability = ''summarize_code'',
           res_facts = [\<lparr>fact_type = ''functions'',
                         fact_data = [(''names'', JList (map JStr (re_findall def_rx code)))]\<rparr>],
           res_artifacts = [],
           res_sources = [in_memory_source (dict_get (req_inputs req) ''filename'' (JStr ''unknown.py''))],
           res_timestamps = [(''queued'', now1 @ ''Z''), (''ended'', now2 @ ''Z'')],
           res_stable_id = ''run_'' @ task_id,
           res_message = Some (''This file defines: '' @
             (if re_findall def_rx code \<noteq> [] then join '', '' (re_findall def_rx code)
              else ''no functions detected''))\<rparr>,
          w)"
  using assms by (simp add: run_task_def Let_def)

lemma run_task_keeps_table:
  assumes "run_task w now1 now2 task_id req = Inr (res, w')"
  shows "TASKS w' = TASKS w \<and> ARTIFACT_DIR w' = ARTIFACT_DIR w"
  using assms
  by (auto simp add: run_task_def Let_def split: if_splits json.splits)

lemma run_task_result:
  assumes "run_task w now1 now2 task_id req = Inr (res, w')"
  shows "res_task_id res = task_id \<and> res_status res = ''SUCCEEDED''
     \<and> res_stable_id res = ''run_'' @ task_id \<and> res_capability res = req_capability req"
  using assms
  by (auto simp add: run_task_def Let_def split: if_splits json.splits)

lemma create_task_table:
  "TASKS (snd (create_task w hex now1 now2 req)) =
     (if req_capability req \<in> set (map cap_name CAPABILITIES)
      then (TASKS w)(''t-'' @ take 8 hex := TASKS (snd (create_task w hex now1 now2 req)) (''t-'' @ take 8 hex))
      else TASKS w)"
  by (auto simp add: create_task_def Let_def fun_eq_iff split: sum.splits prod.splits
      dest!: run_task_keeps_table)

lemma create_task_stores:
  "req_capability req \<in> set (map cap_name CAPABILITIES) \<Longrightarrow>
     TASKS (snd (create_task w hex now1 now2 req)) (''t-'' @ take 8 hex) \<noteq> None"
  by (auto simp add: create_task_def Let_def split: sum.splits prod.splits
      dest!: run_task_keeps_table)

lemma dom_create_task:
  "dom (TASKS (snd (create_task w hex now1 now2 req))) =
     (if req_capability req \<in> set (map cap_name CAPABILITIES)
      then insert (''t-'' @ take 8 hex) (dom (TASKS w)) else dom (TASKS w))"
proof (cases "req_capability req \<in> set (map cap_name CAPABILITIES)")
  case True
  from create_task_stores[OF True, of w hex now1 now2] obtain st
    where st: "TASKS (snd (create_task w hex now1 now2 req)) (''t-'' @ take 8 hex) = Some st" by blast
  have "TASKS (snd (create_task w hex now1 now2 req)) = (TASKS w)(''t-'' @ take 8 hex \<mapsto> st)"
    using create_task_table[of w hex now1 now2 req] True st by simp
  then show ?thesis using True by simp
next
  case False
  then show ?thesis using create_task_table[of w hex now1 now2 req] by simp
qed

lemma task_status_pure: "snd (task_status w task_id) = w"
  by (simp add: task_status_def split: option.splits)

lemma dom_serve:
  "dom (TASKS (serve w r)) = dom (TASKS w) \<union> issued [r]"
  by (cases r) (simp_all add: dom_create_task task_status_pure)

lemma dom_foldl_serve:
  "dom (TASKS (foldl serve w rs)) = dom (TASKS w) \<union> issued rs"
proof (induction rs arbitrary: w)
  case Nil
  then show ?case by simp
next
  case (Cons r rs)
  have "issued (r # rs) = issued [r] \<union> issued rs"
    by (cases r) auto
  then show ?case using Cons.IH[of "serve w r"] by (simp add: dom_serve Un_assoc)
qed


section \<open>Polling\<close>




section \<open>Submitting\<close>

lemma run_task_total:
  assumes "req_capability req \<in> set (map cap_name CAPABILITIES)"
    and "dict_get (req_inputs req) ''code'' (JStr []) = JStr code"
  shows "\<exists>res w'. run_task w now1 now2 task_id req = Inr (res, w')"
  using assms run_task_code_quality[of req code w now1 now2 task_id]
    run_task_summarize_code[of req code w now1 now2 task_id]
  unfolding registered_iff by blast

lemma create_task_run:
  assumes "req_capability req \<in> set (map cap_name CAPABILITIES)"
    and "run_task (w\<lparr>TASKS := (TASKS w)(''t-'' @ take 8 hex \<mapsto>
            \<lparr>st_task_id = ''t-'' @ take 8 hex, st_status = ''SCHEDULED'', st_result = None\<rparr>)\<rparr>)
          now1 now2 (''t-'' @ take 8 hex) req = Inr (res, w2)"
  shows "create_task w hex now1 now2 req =
     (Inr [(''task_id'', JStr (''t-'' @ take 8 hex)), (''status'', JStr ''SCHEDULED'')],
      w2\<lparr>TASKS := (TASKS w2)(''t-'' @ take 8 hex \<mapsto>
            \<lparr>st_task_id = ''t-'' @ take 8 hex, st_status = ''SUCCEEDED'', st_result = Some res\<rparr>)\<rparr>)"
  using assms by (simp add: create_task_def Let_def)


lemma create_task_returned:
  assumes "create_task w hex now1 now2 req = (Inr body, w')"
  shows "req_capability req \<in> set (map cap_name CAPABILITIES) \<and>
     (\<exists>res w2. run_task (w\<lparr>TASKS := (TASKS w)(''t-'' @ take 8 hex \<mapsto>
            \<lparr>st_task_id = ''t-'' @ take 8 hex, st_status = ''SCHEDULED'', st_result = None\<rparr>)\<rparr>)
          now1 now2 (''t-'' @ take 8 hex) req = Inr (res, w2)
        \<and> body = [(''task_id'', JStr (''t-'' @ take 8 hex)), (''status'', JStr ''SCHEDULED'')]
        \<and> w' = w2\<lparr>TASKS := (TASKS w2)(''t-'' @ take 8 hex \<mapsto>
            \<lparr>st_task_id = ''t-'' @ take 8 hex, st_status = ''SUCCEEDED'', st_result = Some res\<rparr>)\<rparr>)"
  using assms
  by (auto simp add: create_task_def Let_def split: if_splits sum.splits prod.splits)

lemma dom_grows: "dom (TASKS w) \<subseteq> dom (TASKS (foldl serve w rs))"
  by (simp add: dom_foldl_serve)





text \<open>
  Claim C8. When \<open>create_task\<close> returns, its answer is the new identifier and the
  status \<open>SCHEDULED\<close>, without the result; the table is the one before the call
  with, under that identifier, a \<open>SUCCEEDED\<close> record holding the result of the run,
  which ran on the table where that same key held the \<open>SCHEDULED\<close> record; the
  result has the status \<open>SUCCEEDED\<close> and the stable identifier \<open>run_\<close> followed by the
  task identifier. No request served later removes a key from the table.
\<close>

theorem create_task_success:
  assumes "create_task w hex now1 now2 req = (Inr body, w')"
  shows "body = [(''task_id'', JStr (''t-'' @ take 8 hex)), (''status'', JStr ''SCHEDULED'')]
     \<and> map_of body ''result'' = None
     \<and> (\<exists>res w2.
          run_task (w\<lparr>TASKS := (TASKS w)(''t-'' @ take 8 hex \<mapsto>
              \<lparr>st_task_id = ''t-'' @ take 8 hex, st_status = ''SCHEDULED'', st_result = None\<rparr>)\<rparr>)
            now1 now2 (''t-'' @ take 8 hex) req = Inr (res, w2)
          \<and> TASKS w' = (TASKS w)(''t-'' @ take 8 hex \<mapsto>
              \<lparr>st_task_id = ''t-'' @ take 8 hex, st_status = ''SUCCEEDED'', st_result = Some res\<rparr>)
          \<and> res_task_id res = ''t-'' @ take 8 hex
          \<and> res_status res = ''SUCCEEDED''
          \<and> res_stable_id res = ''run_'' @ ''t-'' @ take 8 hex)
     \<and> dom (TASKS w) \<subseteq> dom (TASKS w')
     \<and> (\<forall>rs. dom (TASKS w') \<subseteq> dom (TASKS (foldl serve w' rs)))"
proof -
  from create_task_returned[OF assms] obtain res w2 where
    run: "run_task (w\<lparr>TASKS := (TASKS w)(''t-'' @ take 8 hex \<mapsto>
              \<lparr>st_task_id = ''t-'' @ take 8 hex, st_status = ''SCHEDULED'', st_result = None\<rparr>)\<rparr>)
            now1 now2 (''t-'' @ take 8 hex) req = Inr (res, w2)"
    and body: "body = [(''task_id'', JStr (''t-'' @ take 8 hex)), (''status'', JStr ''SCHEDULED'')]"
    and w': "w' = w2\<lparr>TASKS := (TASKS w2)(''t-'' @ take 8 hex \<mapsto>
            \<lparr>st_task_id = ''t-'' @ take 8 hex, st_status = ''SUCCEEDED'', st_result = Some res\<rparr>)\<rparr>"
    by blast
  from run_task_keeps_table[OF run] have
    tab: "TASKS w' = (TASKS w)(''t-'' @ take 8 hex \<mapsto>
              \<lparr>st_task_id = ''t-'' @ take 8 hex, st_status = ''SUCCEEDED'', st_result = Some res\<rparr>)"
    using w' by simp
  have grow: "dom (TASKS w) \<subseteq> dom (TASKS w')"
    using tab by auto
  from run_task_result[OF run] have
    res: "res_task_id res = ''t-'' @ take 8 hex \<and> res_status res = ''SUCCEEDED''
          \<and> res_stable_id res = ''run_'' @ ''t-'' @ take 8 hex"
    by simp
  have "map_of body ''result'' = None" using body by simp
  then show ?thesis using run body tab res grow dom_grows by blast
qed

theorem create_task_success_witness:
  "fst (create_task (startup ''/srv/artifacts'' Map.empty) ''0123abcd4567'' ''t1'' ''t2''
        (agent_payload ''summarize_code'' ''x = 1'' ''a.py''))
     = Inr [(''task_id'', JStr ''t-0123abcd''), (''status'', JStr ''SCHEDULED'')]
   \<and> (\<exists>res. TASKS (snd (create_task (startup ''/srv/artifacts'' Map.empty) ''0123abcd4567'' ''t1'' ''t2''
              (agent_payload ''summarize_code'' ''x = 1'' ''a.py''))) ''t-0123abcd''
          = Some \<lparr>st_task_id = ''t-0123abcd'', st_status = ''SUCCEEDED'', st_result = Some res\<rparr>
        \<and> res_status res = ''SUCCEEDED'' \<and> res_stable_id res = ''run_t-0123abcd'')"
proof -
  have reg: "req_capability (agent_payload ''summarize_code'' ''x = 1'' ''a.py'') \<in> set (map cap_name CAPABILITIES)"
    by (simp add: agent_payload_def CAPABILITIES_def)
  have code: "dict_get (req_inputs (agent_payload ''summarize_code'' ''x = 1'' ''a.py'')) ''code'' (JStr [])
      = JStr ''x = 1''"
    by (simp add: agent_payload_def dict_get_def)
  from run_task_total[OF reg code] obtain res w2 where
    "run_task ((startup ''/srv/artifacts'' Map.empty)\<lparr>TASKS := (TASKS (startup ''/srv/artifacts'' Map.empty))
          (''t-'' @ take 8 ''0123abcd4567'' \<mapsto>
            \<lparr>st_task_id = ''t-'' @ take 8 ''0123abcd4567'', st_status = ''SCHEDULED'', st_result = None\<rparr>)\<rparr>)
          ''t1'' ''t2'' (''t-'' @ take 8 ''0123abcd4567'') (agent_payload ''summarize_code'' ''x = 1'' ''a.py'')
        = Inr (res, w2)" by blast
  from create_task_run[OF reg this] have
    h: "create_task (startup ''/srv/artifacts'' Map.empty) ''0123abcd4567'' ''t1'' ''t2''
          (agent_payload ''summarize_code'' ''x = 1'' ''a.py'')
        = (Inr [(''task_id'', JStr ''t-0123abcd''), (''status'', JStr ''SCHEDULED'')],
           snd (create_task (startup ''/srv/artifacts'' Map.empty) ''0123abcd4567'' ''t1'' ''t2''
             (agent_payload ''summarize_code'' ''x = 1'' ''a.py'')))"
    by simp
  from create_task_success[OF h] obtain res' where
    "TASKS (snd (create_task (startup ''/srv/artifacts'' Map.empty) ''0123abcd4567'' ''t1'' ''t2''
              (agent_payload ''summarize_code'' ''x = 1'' ''a.py''))) ''t-0123abcd''
          = Some \<lparr>st_task_id = ''t-0123abcd'', st_status = ''SUCCEEDED'', st_result = Some res'\<rparr>"
     "res_status res' = ''SUCCEEDED''" "res_stable_id res' = ''run_t-0123abcd''"
    by auto
  moreover have "fst (create_task (startup ''/srv/artifacts'' Map.empty) ''0123abcd4567'' ''t1'' ''t2''
        (agent_payload ''summarize_code'' ''x = 1'' ''a.py''))
     = Inr [(''task_id'', JStr ''t-0123abcd''), (''status'', JStr ''SCHEDULED'')]"
    by (subst h) (rule fst_conv)
  ultimately show ?thesis by blast
qed


section \<open>The code quality heuristic\<close>

lemma lint_fact_inj [simp]: "lint_fact a = lint_fact b \<longleftrightarrow> a = b"
  by (simp add: lint_fact_def)

lemma count_list_map_lint_fact [simp]:
  "count_list (map lint_fact xs) (lint_fact x) = count_list xs x"
  by (induction xs) simp_all

lemma count_list_concat:
  "count_list (concat xss) x = sum_list (map (\<lambda>xs. count_list xs x) xss)"
  by (induction xss) simp_all

lemma lint_issue_eq [simp]:
  "lint_issue i m = lint_issue j n \<longleftrightarrow> i = j \<and> m = n"
  by (simp add: lint_issue_def)

lemma count_spec_line_issues_other:
  "i \<noteq> j \<Longrightarrow> count_list (spec_line_issues i l) (lint_issue j m) = 0"
  by (simp add: spec_line_issues_def)

lemma count_spec_line_issues_todo:
  "count_list (spec_line_issues i l) (lint_issue i ''TODO found'')
     = (if \<exists>pre post. l = pre @ ''TODO'' @ post then 1 else 0)"
  unfolding str_in_iff[symmetric] by (simp add: spec_line_issues_def)

lemma count_spec_line_issues_long:
  "count_list (spec_line_issues i l) (lint_issue i ''Line longer than 100 chars'')
     = (if 100 < length l then 1 else 0)"
  by (simp add: spec_line_issues_def)

lemma count_spec_line_issues_docstring:
  "count_list (spec_line_issues i l) docstring_issue = 0"
  by (simp add: spec_line_issues_def docstring_issue_def)

lemma count_enumerate_other:
  "n < k \<Longrightarrow>
   count_list (concat (map (\<lambda>(i, l). spec_line_issues (int i) l) (enumerate k ls))) (lint_issue (int n) m) = 0"
proof (induction ls arbitrary: k)
  case Nil
  then show ?case by simp
next
  case (Cons l ls)
  have "int k \<noteq> int n" using Cons.prems by simp
  then show ?case using Cons.IH[of "Suc k"] Cons.prems
    by (simp add: count_spec_line_issues_other)
qed

lemma count_enumerate:
  assumes "(n, line) \<in> set (enumerate k ls)"
  shows "count_list (concat (map (\<lambda>(i, l). spec_line_issues (int i) l) (enumerate k ls))) (lint_issue (int n) m)
     = count_list (spec_line_issues (int n) line) (lint_issue (int n) m)"
  using assms
proof (induction ls arbitrary: k)
  case Nil
  then show ?case by simp
next
  case (Cons l ls)
  from Cons.prems consider "n = k" "line = l" | "(n, line) \<in> set (enumerate (Suc k) ls)"
    by auto
  then show ?case
  proof cases
    case 1
    then show ?thesis using count_enumerate_other[of k "Suc k" ls m] by simp
  next
    case 2
    then have "Suc k \<le> n" by (auto simp add: in_set_enumerate_eq)
    then have "int k \<noteq> int n" by simp
    then show ?thesis using Cons.IH[OF 2] by (simp add: count_spec_line_issues_other)
  qed
qed

lemma count_scan_docstring:
  "count_list (concat (map (\<lambda>(i, l). spec_line_issues (int i) l) (enumerate k ls))) docstring_issue = 0"
  by (induction ls arbitrary: k) (simp_all add: count_spec_line_issues_docstring)

lemma scan_lines_spec:
  "scan_lines 1 lines [] = concat (map (\<lambda>(i, l). spec_line_issues (int i) l) (enumerate 1 lines))"
  using scan_lines_concat[of 1 lines] by simp

lemma lint_issues_spec:
  "lint_issues code =
     concat (map (\<lambda>(i, l). spec_line_issues (int i) l) (enumerate 1 (splitlines code)))
     @ (if re_search docstring_rx code = None then [docstring_issue] else [])"
  by (simp add: lint_issues_def Let_def scan_lines_spec)

text \<open>
  Claim C2. A code quality run returns the facts of the lines followed by the
  docstring fact when, and only when, the docstring pattern matches nowhere in the
  text: that fact occurs once among the facts in that case and not at all
  otherwise. A text in which \<open>def\<close> does not occur has no match, so the fact is
  there. The message counts the facts.
\<close>

theorem docstring_fact_iff_no_match:
  assumes "req_capability req = ''code_quality''"
    and "dict_get (req_inputs req) ''code'' (JStr []) = JStr code"
  shows "\<exists>res w'. run_task w now1 now2 task_id req = Inr (res, w')
     \<and> res_facts res = map lint_fact (scan_lines 1 (splitlines code) [])
          @ (if re_search docstring_rx code = None then [lint_fact docstring_issue] else [])
     \<and> count_list (res_facts res) (lint_fact docstring_issue)
          = (if re_search docstring_rx code = None then 1 else 0)
     \<and> ((\<nexists>pre post. code = pre @ ''def'' @ post) \<longrightarrow> re_search docstring_rx code = None)
     \<and> res_message res
          = Some (str_int (int (length (res_facts res))) @ '' potential issues found.'')"
proof -
  let ?res = "fst (projr (run_task w now1 now2 task_id req))"
  let ?w' = "snd (projr (run_task w now1 now2 task_id req))"
  have run: "run_task w now1 now2 task_id req = Inr (?res, ?w')"
    by (simp add: run_task_code_quality[OF assms])
  have facts: "res_facts ?res = map lint_fact (lint_issues code)"
    and msg: "res_message ?res = Some (str_int (int (length (lint_issues code))) @ '' potential issues found.'')"
    by (simp_all add: run_task_code_quality[OF assms])
  have f2: "res_facts ?res = map lint_fact (scan_lines 1 (splitlines code) [])
          @ (if re_search docstring_rx code = None then [lint_fact docstring_issue] else [])"
    using facts by (simp add: lint_issues_def Let_def)
  have cnt: "count_list (res_facts ?res) (lint_fact docstring_issue)
          = (if re_search docstring_rx code = None then 1 else 0)"
    using facts by (simp add: lint_issues_spec count_scan_docstring)
  have nodef: "(\<nexists>pre post. code = pre @ ''def'' @ post) \<longrightarrow> re_search docstring_rx code = None"
    using re_search_docstring_needs_def[of code] by blast
  have m2: "res_message ?res
          = Some (str_int (int (length (res_facts ?res))) @ '' potential issues found.'')"
    using facts msg by simp
  from run f2 cnt nodef m2 show ?thesis by blast
qed

lemma scenario_lines:
  "scan_lines 1 (splitlines scenario_code) [] = [lint_issue 1 ''TODO found'']"
  unfolding scenario_code_def by code_simp

lemma str_int_2: "str_int 2 = ''2''"
  by code_simp

lemma scenario_no_match:
  "re_search docstring_rx scenario_code = None"
  unfolding scenario_code_def by code_simp

theorem docstring_fact_iff_no_match_witness:
  "\<exists>res w'. run_task (startup ''/srv/artifacts'' Map.empty) ''t1'' ''t2'' ''t-0123abcd''
        (agent_payload ''code_quality'' scenario_code ''demo.py'') = Inr (res, w')
     \<and> res_facts res = [lint_fact (lint_issue 1 ''TODO found''), lint_fact docstring_issue]
     \<and> length (res_facts res) = 2
     \<and> res_message res = Some ''2 potential issues found.''"
proof -
  have cap: "req_capability (agent_payload ''code_quality'' scenario_code ''demo.py'')
      = ''code_quality''"
    by (simp add: agent_payload_def)
  have code: "dict_get (req_inputs (agent_payload ''code_quality'' scenario_code ''demo.py''))
      ''code'' (JStr []) = JStr scenario_code"
    by (simp add: agent_payload_def dict_get_def)
  from docstring_fact_iff_no_match[OF cap code, of "startup ''/srv/artifacts'' Map.empty" "''t1''" "''t2''"
      "''t-0123abcd''"]
  obtain res w' where run: "run_task (startup ''/srv/artifacts'' Map.empty) ''t1'' ''t2'' ''t-0123abcd''
        (agent_payload ''code_quality'' scenario_code ''demo.py'') = Inr (res, w')"
    and facts: "res_facts res = map lint_fact (scan_lines 1 (splitlines scenario_code) [])
          @ (if re_search docstring_rx scenario_code = None
             then [lint_fact docstring_issue] else [])"
    and msg: "res_message res
          = Some (str_int (int (length (res_facts res))) @ '' potential issues found.'')"
    by blast
  have f: "res_facts res = [lint_fact (lint_issue 1 ''TODO found''), lint_fact docstring_issue]"
    using facts by (simp only: scenario_lines scenario_no_match) simp
  have two: "str_int (int (length (res_facts res))) = ''2''"
    unfolding f by (simp add: str_int_2)
  have "res_message res = Some ''2 potential issues found.''"
    using msg unfolding two by simp
  with run f show ?thesis by auto
qed

text \<open>
  Claim C3. The facts of a code quality run are, line by line in the order of the
  lines (numbered from 1), a \<open>TODO found\<close> fact if the line contains \<open>TODO\<close> and then
  a \<open>Line longer than 100 chars\<close> fact if the line has more than 100 characters,
  followed by nothing or by the docstring fact. So for each line either fact
  occurs once among the facts of the run if its condition holds, and not at all if
  it does not.
\<close>

theorem line_facts_per_line:
  assumes "req_capability req = ''code_quality''"
    and "dict_get (req_inputs req) ''code'' (JStr []) = JStr code"
  shows "\<exists>res w' doc. run_task w now1 now2 task_id req = Inr (res, w')
     \<and> res_facts res =
          map lint_fact (concat (map (\<lambda>(n, line). spec_line_issues (int n) line)
            (enumerate 1 (splitlines code)))) @ doc
     \<and> (doc = [] \<or> doc = [lint_fact docstring_issue])
     \<and> (\<forall>n line. (n, line) \<in> set (enumerate 1 (splitlines code)) \<longrightarrow>
          count_list (res_facts res) (lint_fact (lint_issue (int n) ''TODO found''))
            = (if \<exists>pre post. line = pre @ ''TODO'' @ post then 1 else 0)
          \<and> count_list (res_facts res) (lint_fact (lint_issue (int n) ''Line longer than 100 chars''))
            = (if 100 < length line then 1 else 0))"
proof -
  let ?res = "fst (projr (run_task w now1 now2 task_id req))"
  let ?w' = "snd (projr (run_task w now1 now2 task_id req))"
  let ?doc = "if re_search docstring_rx code = None then [lint_fact docstring_issue] else []"
  let ?per = "concat (map (\<lambda>(n, line). spec_line_issues (int n) line) (enumerate 1 (splitlines code)))"
  have run: "run_task w now1 now2 task_id req = Inr (?res, ?w')"
    by (simp add: run_task_code_quality[OF assms])
  have "res_facts ?res = map lint_fact (lint_issues code)"
    by (simp add: run_task_code_quality[OF assms])
  then have facts: "res_facts ?res = map lint_fact ?per @ ?doc"
    by (simp add: lint_issues_spec)
  have doc: "?doc = [] \<or> ?doc = [lint_fact docstring_issue]"
    by simp
  have per_line: "\<forall>n line. (n, line) \<in> set (enumerate 1 (splitlines code)) \<longrightarrow>
          count_list (res_facts ?res) (lint_fact (lint_issue (int n) ''TODO found''))
            = (if \<exists>pre post. line = pre @ ''TODO'' @ post then 1 else 0)
          \<and> count_list (res_facts ?res) (lint_fact (lint_issue (int n) ''Line longer than 100 chars''))
            = (if 100 < length line then 1 else 0)"
  proof (intro allI impI)
    fix n line assume mem: "(n, line) \<in> set (enumerate 1 (splitlines code))"
    have d1: "count_list ?doc (lint_fact (lint_issue (int n) ''TODO found'')) = 0"
      and d2: "count_list ?doc (lint_fact (lint_issue (int n) ''Line longer than 100 chars'')) = 0"
      by (simp_all add: docstring_issue_def)
    show "count_list (res_facts ?res) (lint_fact (lint_issue (int n) ''TODO found''))
            = (if \<exists>pre post. line = pre @ ''TODO'' @ post then 1 else 0)
          \<and> count_list (res_facts ?res) (lint_fact (lint_issue (int n) ''Line longer than 100 chars''))
            = (if 100 < length line then 1 else 0)"
      unfolding facts count_list_append d1 d2 count_list_map_lint_fact
        count_enumerate[OF mem] count_spec_line_issues_todo count_spec_line_issues_long
      by simp
  qed
  from run facts doc per_line show ?thesis by blast
qed

lemma two_line_lines:
  "enumerate 1 (splitlines two_line_code)
     = [(1, ''# TODO TODO''), (2, replicate 101 CHR ''x'' @ '' # TODO'')]"
  unfolding two_line_code_def by code_simp

lemma two_line_issues:
  "concat (map (\<lambda>(n, line). spec_line_issues (int n) line)
     [(1, ''# TODO TODO''), (2, replicate 101 CHR ''x'' @ '' # TODO'')])
   = [lint_issue 1 ''TODO found'', lint_issue 2 ''TODO found'',
      lint_issue 2 ''Line longer than 100 chars'']"
  by code_simp

theorem line_facts_per_line_witness:
  "\<exists>res w' doc. run_task (startup ''/srv/artifacts'' Map.empty) ''t1'' ''t2'' ''t-0123abcd''
        (agent_payload ''code_quality'' two_line_code ''demo.py'') = Inr (res, w')
     \<and> res_facts res =
          [lint_fact (lint_issue 1 ''TODO found''), lint_fact (lint_issue 2 ''TODO found''),
           lint_fact (lint_issue 2 ''Line longer than 100 chars'')] @ doc
     \<and> count_list (res_facts res) (lint_fact (lint_issue 1 ''TODO found'')) = 1
     \<and> count_list (res_facts res) (lint_fact (lint_issue 1 ''Line longer than 100 chars'')) = 0
     \<and> count_list (res_facts res) (lint_fact (lint_issue 2 ''TODO found'')) = 1
     \<and> count_list (res_facts res) (lint_fact (lint_issue 2 ''Line longer than 100 chars'')) = 1"
proof -
  have cap: "req_capability (agent_payload ''code_quality'' two_line_code ''demo.py'') = ''code_quality''"
    by (simp add: agent_payload_def)
  have code: "dict_get (req_inputs (agent_payload ''code_quality'' two_line_code ''demo.py''))
      ''code'' (JStr []) = JStr two_line_code"
    by (simp add: agent_payload_def dict_get_def)
  from line_facts_per_line[OF cap code, of "startup ''/srv/artifacts'' Map.empty" "''t1''" "''t2''"
      "''t-0123abcd''"]
  obtain res w' doc where run: "run_task (startup ''/srv/artifacts'' Map.empty) ''t1'' ''t2'' ''t-0123abcd''
        (agent_payload ''code_quality'' two_line_code ''demo.py'') = Inr (res, w')"
    and facts: "res_facts res =
          map lint_fact (concat (map (\<lambda>(n, line). spec_line_issues (int n) line)
            (enumerate 1 (splitlines two_line_code)))) @ doc"
    and per: "\<forall>n line. (n, line) \<in> set (enumerate 1 (splitlines two_line_code)) \<longrightarrow>
          count_list (res_facts res) (lint_fact (lint_issue (int n) ''TODO found''))
            = (if \<exists>pre post. line = pre @ ''TODO'' @ post then 1 else 0)
          \<and> count_list (res_facts res) (lint_fact (lint_issue (int n) ''Line longer than 100 chars''))
            = (if 100 < length line then 1 else 0)"
    by blast
  have f: "res_facts res =
          [lint_fact (lint_issue 1 ''TODO found''), lint_fact (lint_issue 2 ''TODO found''),
           lint_fact (lint_issue 2 ''Line longer than 100 chars'')] @ doc"
    using facts unfolding two_line_lines two_line_issues by simp
  have m1: "(1, ''# TODO TODO'') \<in> set (enumerate 1 (splitlines two_line_code))"
    and m2: "(2, replicate 101 CHR ''x'' @ '' # TODO'') \<in> set (enumerate 1 (splitlines two_line_code))"
    unfolding two_line_lines by simp_all
  have t1: "\<exists>pre post. ''# TODO TODO'' = pre @ ''TODO'' @ post"
    unfolding str_in_iff[symmetric] by code_simp
  have t2: "\<exists>pre post. replicate 101 CHR ''x'' @ '' # TODO'' = pre @ ''TODO'' @ post"
    unfolding str_in_iff[symmetric] by code_simp
  have l1: "\<not> 100 < length ''# TODO TODO''" by simp
  have l2: "100 < length (replicate 101 CHR ''x'' @ '' # TODO'')" by simp
  from per[rule_format, OF m1] t1 l1
  have c1: "count_list (res_facts res) (lint_fact (lint_issue 1 ''TODO found'')) = 1"
    and c2: "count_list (res_facts res) (lint_fact (lint_issue 1 ''Line longer than 100 chars'')) = 0"
    by simp_all
  from per[rule_format, OF m2] t2 l2
  have c3: "count_list (res_facts res) (lint_fact (lint_issue 2 ''TODO found'')) = 1"
    and c4: "count_list (res_facts res) (lint_fact (lint_issue 2 ''Line longer than 100 chars'')) = 1"
    by simp_all
  from run f c1 c2 c3 c4 show ?thesis by blast
qed


section \<open>The report and its artifact\<close>

text \<open>
  Claim C5. A code quality run writes the report \<open>{filename, issue_count, issues}\<close>
  in which \<open>issue_count\<close> is the number of issues, which is the number of facts; the
  data of the facts are the issues, in the same order; and the message is that
  count followed by \<open>potential issues found.\<close>
\<close>

theorem report_counts:
  assumes "req_capability req = ''code_quality''"
    and "dict_get (req_inputs req) ''code'' (JStr []) = JStr code"
  shows "\<exists>res w' issues. run_task w now1 now2 task_id req = Inr (res, w')
     \<and> issues = lint_issues code
     \<and> files w' (artifact_path w (task_id @ ''_lint_report.json''))
         = Some (json_dumps (JObj
             [(''filename'', dict_get (req_inputs req) ''filename'' (JStr ''unknown.py'')),
              (''issue_count'', JInt (int (length issues))),
              (''issues'', JList (map JObj issues))]))
     \<and> length issues = length (res_facts res)
     \<and> map fact_data (res_facts res) = issues
     \<and> map fact_type (res_facts res) = replicate (length issues) ''lint_issue''
     \<and> res_message res = Some (str_int (int (length issues)) @ '' potential issues found.'')"
proof -
  let ?res = "fst (projr (run_task w now1 now2 task_id req))"
  let ?w' = "snd (projr (run_task w now1 now2 task_id req))"
  have run: "run_task w now1 now2 task_id req = Inr (?res, ?w')"
    by (simp add: run_task_code_quality[OF assms])
  have written: "files ?w' (artifact_path w (task_id @ ''_lint_report.json''))
         = Some (json_dumps (JObj
             [(''filename'', dict_get (req_inputs req) ''filename'' (JStr ''unknown.py'')),
              (''issue_count'', JInt (int (length (lint_issues code)))),
              (''issues'', JList (map JObj (lint_issues code)))]))"
    by (simp add: run_task_code_quality[OF assms] lint_report_def)
  have len: "length (lint_issues code) = length (res_facts ?res)"
    by (simp add: run_task_code_quality[OF assms])
  have data: "map fact_data (res_facts ?res) = lint_issues code"
    by (simp add: run_task_code_quality[OF assms] lint_fact_def comp_def)
  have ty: "map fact_type (res_facts ?res) = replicate (length (lint_issues code)) ''lint_issue''"
    by (simp add: run_task_code_quality[OF assms] lint_fact_def comp_def map_replicate_const)
  have msg: "res_message ?res = Some (str_int (int (length (lint_issues code))) @ '' potential issues found.'')"
    by (simp add: run_task_code_quality[OF assms])
  from run written len data ty msg show ?thesis by blast
qed

lemma scenario_issues:
  "lint_issues scenario_code = [lint_issue 1 ''TODO found'', docstring_issue]"
  by (simp add: lint_issues_def Let_def scenario_lines scenario_no_match)

theorem report_counts_witness:
  "\<exists>res w'. run_task (startup ''/srv/artifacts'' Map.empty) ''t1'' ''t2'' ''t-0123abcd''
        (agent_payload ''code_quality'' scenario_code ''demo.py'') = Inr (res, w')
     \<and> files w' ''/srv/artifacts/t-0123abcd_lint_report.json''
         = Some (json_dumps (JObj
             [(''filename'', JStr ''demo.py''), (''issue_count'', JInt 2),
              (''issues'', JList [JObj (lint_issue 1 ''TODO found''), JObj docstring_issue])]))
     \<and> length (res_facts res) = 2
     \<and> map fact_data (res_facts res) = [lint_issue 1 ''TODO found'', docstring_issue]
     \<and> res_message res = Some ''2 potential issues found.''"
proof -
  have cap: "req_capability (agent_payload ''code_quality'' scenario_code ''demo.py'') = ''code_quality''"
    by (simp add: agent_payload_def)
  have code: "dict_get (req_inputs (agent_payload ''code_quality'' scenario_code ''demo.py''))
      ''code'' (JStr []) = JStr scenario_code"
    by (simp add: agent_payload_def dict_get_def)
  have fn: "dict_get (req_inputs (agent_payload ''code_quality'' scenario_code ''demo.py''))
      ''filename'' (JStr ''unknown.py'') = JStr ''demo.py''"
    by (simp add: agent_payload_def dict_get_def)
  have path: "artifact_path (startup ''/srv/artifacts'' Map.empty) (''t-0123abcd'' @ ''_lint_report.json'')
      = ''/srv/artifacts/t-0123abcd_lint_report.json''"
    by (simp add: artifact_path_def os_path_join_def startup_def)
  from report_counts[OF cap code, of "startup ''/srv/artifacts'' Map.empty" "''t1''" "''t2''"
      "''t-0123abcd''"]
  show ?thesis
    unfolding scenario_issues fn path by (auto simp add: str_int_2)
qed







section \<open>Missing inputs\<close>







section \<open>Docstrings after blank lines\<close>

lemma re_search_found:
  assumes "code = pre @ suf"
    and "rx_match p \<lparr>at_bol = bol_after True pre, rest = suf, marks = []\<rparr> \<noteq> []"
  shows "re_search p code \<noteq> None"
  using assms unfolding re_search_def rx_search_None_iff by blast

lemma blank_line_issues: "lint_issues blank_line_code = []"
  unfolding blank_line_code_def by code_simp

lemma blank_line_lines:
  "splitlines blank_line_code
     = [''def f():'', [], ''    '' @ [CHR 0x22, CHR 0x22, CHR 0x22] @ ''doc'' @ [CHR 0x22, CHR 0x22, CHR 0x22]]"
  unfolding blank_line_code_def by code_simp

lemma blank_line_match: "re_search docstring_rx blank_line_code \<noteq> None"
  unfolding blank_line_code_def by code_simp

text \<open>
  Claim C1, as amended. Take a code quality run on a text in which some line
  starts, after optional whitespace, with \<open>def\<close>, whitespace, an identifier, \<open>(\<close>,
  any characters of that line and \<open>):\<close> at its end, and in which, after the newline
  of that line, there is whitespace and then a triple double quote. That
  whitespace may hold newlines, so blank lines may stand between the \<open>def\<close> line
  and the docstring line. Then the docstring pattern matches, and the docstring
  fact is not among the facts, which are those of the lines.
\<close>

theorem docstring_after_blank_lines:
  assumes "req_capability req = ''code_quality''"
    and "dict_get (req_inputs req) ''code'' (JStr []) = JStr code"
    and "code = pre @ ws0 @ ''def'' @ ws1 @ name @ ''('' @ args @ ''):'' @ [NL] @ ws2
                  @ [CHR 0x22, CHR 0x22, CHR 0x22] @ post"
    and "pre = [] \<or> last pre = NL"
    and "list_all is_space ws0"
    and "ws1 \<noteq> []" and "list_all is_space ws1"
    and "name \<noteq> []" and "list_all is_word name"
    and "list_all (\<lambda>c. c \<noteq> NL) args"
    and "ws2 \<noteq> []" and "list_all is_space ws2"
  shows "re_search docstring_rx code \<noteq> None
     \<and> (\<exists>res w'. run_task w now1 now2 task_id req = Inr (res, w')
          \<and> res_facts res = map lint_fact (scan_lines 1 (splitlines code) [])
          \<and> lint_fact docstring_issue \<notin> set (res_facts res))"
proof -
  have bol: "bol_after True pre = True"
    using assms(4) by (auto simp add: bol_after_def)
  have m: "rx_match docstring_rx
      \<lparr>at_bol = bol_after True pre,
       rest = ws0 @ ''def'' @ ws1 @ name @ ''('' @ args @ '')'' @ '':'' @ [NL] @ ws2
                @ [CHR 0x22, CHR 0x22, CHR 0x22] @ post,
       marks = []\<rparr> \<noteq> []"
    unfolding bol
    by (rule docstring_rx_complete[OF assms(5) assms(6) assms(7) assms(8) assms(9) assms(10)
          assms(11) assms(12)])
  have split: "code = pre @ (ws0 @ ''def'' @ ws1 @ name @ ''('' @ args @ '')'' @ '':'' @ [NL] @ ws2
                @ [CHR 0x22, CHR 0x22, CHR 0x22] @ post)"
    using assms(3) by simp
  from re_search_found[OF split m] have found: "re_search docstring_rx code \<noteq> None" .
  let ?res = "fst (projr (run_task w now1 now2 task_id req))"
  let ?w' = "snd (projr (run_task w now1 now2 task_id req))"
  have run: "run_task w now1 now2 task_id req = Inr (?res, ?w')"
    by (simp add: run_task_code_quality[OF assms(1) assms(2)])
  have "res_facts ?res = map lint_fact (lint_issues code)"
    by (simp add: run_task_code_quality[OF assms(1) assms(2)])
  then have facts: "res_facts ?res = map lint_fact (scan_lines 1 (splitlines code) [])"
    using found by (simp add: lint_issues_def Let_def)
  have "count_list (res_facts ?res) (lint_fact docstring_issue) = 0"
    unfolding facts scan_lines_spec by (simp add: count_scan_docstring)
  then have absent: "lint_fact docstring_issue \<notin> set (res_facts ?res)"
    by (simp add: count_list_0_iff)
  from found run facts absent show ?thesis by blast
qed

theorem docstring_after_blank_lines_witness:
  "re_search docstring_rx blank_line_code \<noteq> None
   \<and> (\<exists>res w'. run_task (startup ''/srv/artifacts'' Map.empty) ''t1'' ''t2'' ''t-0123abcd''
          (agent_payload ''code_quality'' blank_line_code ''demo.py'') = Inr (res, w')
        \<and> lint_fact docstring_issue \<notin> set (res_facts res))"
proof -
  have cap: "req_capability (agent_payload ''code_quality'' blank_line_code ''demo.py'') = ''code_quality''"
    by (simp add: agent_payload_def)
  have code: "dict_get (req_inputs (agent_payload ''code_quality'' blank_line_code ''demo.py''))
      ''code'' (JStr []) = JStr blank_line_code"
    by (simp add: agent_payload_def dict_get_def)
  have shape: "blank_line_code = [] @ [] @ ''def'' @ '' '' @ ''f'' @ ''('' @ [] @ ''):'' @ [NL]
      @ (NL # ''    '') @ [CHR 0x22, CHR 0x22, CHR 0x22] @ (''doc'' @ [CHR 0x22, CHR 0x22, CHR 0x22] @ [NL])"
    by (simp add: blank_line_code_def)
  have h4: "([]::string) = [] \<or> last ([]::string) = NL" by simp
  have h5: "list_all is_space []" by simp
  have h6: "'' '' \<noteq> []" by simp
  have h7: "list_all is_space '' ''" by (simp add: is_space_def cp_def)
  have h8: "''f'' \<noteq> []" by simp
  have h9: "list_all is_word ''f''" by (simp add: is_word_def cp_def)
  have h10: "list_all (\<lambda>c. c \<noteq> NL) []" by simp
  have h11: "NL # ''    '' \<noteq> []" by simp
  have h12: "list_all is_space (NL # ''    '')" by (simp add: is_space_def cp_def NL_def)
  from docstring_after_blank_lines[OF cap code shape h4 h5 h6 h7 h8 h9 h10 h11 h12,
      of "startup ''/srv/artifacts'' Map.empty" "''t1''" "''t2''" "''t-0123abcd''"]
  show ?thesis by blast
qed

text \<open>
  The claim as it was stated fails: in this text one blank line separates the only
  \<open>def\<close> line from its docstring line, the pattern matches, and the run returns no
  fact at all.
\<close>

theorem blank_line_docstring_counterexample:
  "splitlines blank_line_code
     = [''def f():'', [], ''    '' @ [CHR 0x22, CHR 0x22, CHR 0x22] @ ''doc'' @ [CHR 0x22, CHR 0x22, CHR 0x22]]
   \<and> re_search docstring_rx blank_line_code \<noteq> None
   \<and> (\<exists>res w'. run_task (startup ''/srv/artifacts'' Map.empty) ''t1'' ''t2'' ''t-0123abcd''
          (agent_payload ''code_quality'' blank_line_code ''demo.py'') = Inr (res, w')
        \<and> res_facts res = [])"
proof -
  have cap: "req_capability (agent_payload ''code_quality'' blank_line_code ''demo.py'') = ''code_quality''"
    by (simp add: agent_payload_def)
  have code: "dict_get (req_inputs (agent_payload ''code_quality'' blank_line_code ''demo.py''))
      ''code'' (JStr []) = JStr blank_line_code"
    by (simp add: agent_payload_def dict_get_def)
  show ?thesis
    unfolding run_task_code_quality[OF cap code] blank_line_issues
    using blank_line_lines blank_line_match by simp
qed


section \<open>The summary\<close>

lemma word_not_space: "is_word c \<Longrightarrow> \<not> is_space c"
  by (auto simp add: is_word_def is_space_def)

lemma star_stops:
  "\<not> in_cls k c \<Longrightarrow> star k b (c # r) = [(b, c # r)]"
  by simp

lemma star_head:
  assumes "list_all (in_cls k) pre" and "\<not> in_cls k c"
  shows "\<exists>t. star k b (pre @ c # r) = (bol_after b pre, c # r) # t"
  using assms
proof (induction pre arbitrary: b)
  case Nil
  then show ?case by simp
next
  case (Cons p ps)
  then obtain t where "star k (p = NL) (ps @ c # r) = (bol_after (p = NL) ps, c # r) # t"
    by auto
  then show ?case using Cons.prems by simp
qed

lemma def_rx_not_at_bol:
  "rx_match def_rx \<lparr>at_bol = False, rest = s, marks = ms\<rparr> = []"
  by (simp add: def_rx_def)

lemma def_rx_match_line:
  assumes "name \<noteq> []" and "list_all is_word name"
  shows "\<exists>u. rx_match def_rx \<lparr>at_bol = True, rest = ''def '' @ name @ ''('' @ tail, marks = []\<rparr>
     = \<lparr>at_bol = False, rest = tail, marks = [name @ ''('' @ tail, ''('' @ tail]\<rparr> # u"
proof -
  from assms obtain c cs where name: "name = c # cs" and c: "is_word c" and cs: "list_all is_word cs"
    by (cases name) auto
  have nsp: "\<not> in_cls Space c" using c by (simp add: word_not_space)
  have npar: "\<not> in_cls Word CHR ''(''" by (simp add: is_word_def cp_def)
  have nd: "\<not> in_cls Space CHR ''d''" by (simp add: is_space_def cp_def)
  have sp: "in_cls Space CHR '' ''" by (simp add: is_space_def cp_def)
  have csw: "list_all (in_cls Word) cs" using cs by (simp add: list_all_iff)
  from star_head[OF csw npar, of "c = NL" tail] obtain t where
    st: "star Word (c = NL) (cs @ CHR ''('' # tail) = (bol_after (c = NL) cs, CHR ''('' # tail) # t"
    by blast
  have pw: "plus Word (name @ ''('' @ tail) = (bol_after (c = NL) cs, CHR ''('' # tail) # t"
    using st c name by simp
  have ps: "plus Space ('' '' @ name @ ''('' @ tail) = [(False, name @ ''('' @ tail)]"
    using sp nsp name by (simp add: NL_def)
  have s0: "star Space True (''def '' @ name @ ''('' @ tail) = [(True, ''def '' @ name @ ''('' @ tail)]"
    using nd by simp
  have tail_match: "rx_match [Plus Word, MarkClose, Lit CHR ''('']
      \<lparr>at_bol = False, rest = name @ ''('' @ tail, marks = [name @ ''('' @ tail]\<rparr>
    = \<lparr>at_bol = False, rest = tail, marks = [name @ ''('' @ tail, ''('' @ tail]\<rparr>
      # concat (map (rx_match [MarkClose, Lit CHR ''(''])
          (map (\<lambda>(b, s). \<lparr>at_bol = b, rest = s, marks = [name @ ''('' @ tail]\<rparr>) t))"
    using pw by (simp add: NL_def)
  have "rx_match def_rx \<lparr>at_bol = True, rest = ''def '' @ name @ ''('' @ tail, marks = []\<rparr>
    = rx_match [Plus Word, MarkClose, Lit CHR ''('']
      \<lparr>at_bol = False, rest = name @ ''('' @ tail, marks = [name @ ''('' @ tail]\<rparr>"
    unfolding def_rx_def using s0 ps by (simp add: NL_def)
  then show ?thesis using tail_match by simp
qed

lemma findall_def_line:
  assumes "name \<noteq> []" and "list_all is_word name"
  shows "findall_from def_rx True (''def '' @ name @ ''('' @ tail) = name # findall_from def_rx False tail"
proof -
  from def_rx_match_line[OF assms, of tail] obtain u where
    m: "rx_match def_rx \<lparr>at_bol = True, rest = ''def '' @ name @ ''('' @ tail, marks = []\<rparr>
     = \<lparr>at_bol = False, rest = tail, marks = [name @ ''('' @ tail, ''('' @ tail]\<rparr> # u" by blast
  show ?thesis
    by (subst findall_from.simps, subst m) (simp add: group1_def)
qed

lemma findall_skip_line:
  assumes "NL \<notin> set x"
  shows "findall_from def_rx False (x @ NL # r) = findall_from def_rx True r"
  using assms
proof (induction x)
  case Nil
  show ?case by (subst findall_from.simps) (simp add: def_rx_not_at_bol)
next
  case (Cons c cs)
  then have "c \<noteq> NL" and "NL \<notin> set cs" by auto
  then show ?case using Cons.IH
    by (subst findall_from.simps) (simp add: def_rx_not_at_bol)
qed

lemma findall_def_lines:
  assumes "list_all (\<lambda>(name, sig). name \<noteq> [] \<and> list_all is_word name \<and> NL \<notin> set sig) fs"
  shows "findall_from def_rx True (concat (map (\<lambda>(name, sig). ''def '' @ name @ ''('' @ sig @ [NL]) fs))
     = map fst fs"
  using assms
proof (induction fs)
  case Nil
  show ?case by (subst findall_from.simps) (simp add: def_rx_def)
next
  case (Cons f fs)
  obtain name sig where f: "f = (name, sig)" by (cases f)
  from Cons.prems f have n: "name \<noteq> []" "list_all is_word name" and s: "NL \<notin> set sig"
    and rest: "list_all (\<lambda>(name, sig). name \<noteq> [] \<and> list_all is_word name \<and> NL \<notin> set sig) fs"
    by simp_all
  let ?r = "concat (map (\<lambda>(name, sig). ''def '' @ name @ ''('' @ sig @ [NL]) fs)"
  have "findall_from def_rx True (''def '' @ name @ ''('' @ (sig @ NL # ?r))
      = name # findall_from def_rx False (sig @ NL # ?r)"
    by (rule findall_def_line[OF n])
  also have "findall_from def_rx False (sig @ NL # ?r) = findall_from def_rx True ?r"
    by (rule findall_skip_line[OF s])
  also have "findall_from def_rx True ?r = map fst fs"
    by (rule Cons.IH[OF rest])
  finally show ?case using f by simp
qed


text \<open>
  Claim C4. A summary run on a text returns one fact, of type \<open>functions\<close>, whose
  data are the names that \<open>re.findall\<close> gives for the pattern, in its order; it
  returns no artifact and leaves the files as they are; the message is
  \<open>This file defines: \<close> followed by the names joined by a comma and a space, or
  by \<open>no functions detected\<close> when there are none. When the text is a sequence
  of lines \<open>def name(...\<close>, the names are the identifiers of these lines, in the
  order of the lines and with their repetitions.
\<close>

theorem summarize_code_result:
  assumes "req_capability req = ''summarize_code''"
    and "dict_get (req_inputs req) ''code'' (JStr []) = JStr code"
  shows "\<exists>res names. run_task w now1 now2 task_id req = Inr (res, w)
     \<and> names = re_findall def_rx code
     \<and> res_facts res = [\<lparr>fact_type = ''functions'', fact_data = [(''names'', JList (map JStr names))]\<rparr>]
     \<and> res_artifacts res = []
     \<and> res_message res = Some (''This file defines: ''
          @ (if names = [] then ''no functions detected'' else join '', '' names))
     \<and> (\<forall>fs. list_all (\<lambda>(name, sig). name \<noteq> [] \<and> list_all is_word name \<and> NL \<notin> set sig) fs
            \<and> code = concat (map (\<lambda>(name, sig). ''def '' @ name @ ''('' @ sig @ [NL]) fs)
          \<longrightarrow> names = map fst fs)"
proof -
  let ?res = "fst (projr (run_task w now1 now2 task_id req))"
  have run: "run_task w now1 now2 task_id req = Inr (?res, w)"
    by (simp add: run_task_summarize_code[OF assms])
  have facts: "res_facts ?res = [\<lparr>fact_type = ''functions'',
      fact_data = [(''names'', JList (map JStr (re_findall def_rx code)))]\<rparr>]"
    and arts: "res_artifacts ?res = []"
    and msg: "res_message ?res = Some (''This file defines: ''
          @ (if re_findall def_rx code = [] then ''no functions detected''
             else join '', '' (re_findall def_rx code)))"
    by (simp_all add: run_task_summarize_code[OF assms])
  have lines: "\<forall>fs. list_all (\<lambda>(name, sig). name \<noteq> [] \<and> list_all is_word name \<and> NL \<notin> set sig) fs
            \<and> code = concat (map (\<lambda>(name, sig). ''def '' @ name @ ''('' @ sig @ [NL]) fs)
          \<longrightarrow> re_findall def_rx code = map fst fs"
    using findall_def_lines by (simp add: re_findall_def)
  from run facts arts msg lines show ?thesis by blast
qed

lemma foo_bar_names: "re_findall def_rx foo_bar_code = [''foo'', ''bar'']"
  unfolding foo_bar_code_def by code_simp

theorem summarize_code_result_witness:
  "(\<exists>res. run_task (startup ''/srv/artifacts'' Map.empty) ''t1'' ''t2'' ''t-0123abcd''
        (agent_payload ''summarize_code'' foo_bar_code ''demo.py'')
      = Inr (res, startup ''/srv/artifacts'' Map.empty)
     \<and> res_facts res
         = [\<lparr>fact_type = ''functions'', fact_data = [(''names'', JList [JStr ''foo'', JStr ''bar''])]\<rparr>]
     \<and> res_artifacts res = []
     \<and> res_message res = Some ''This file defines: foo, bar'')
   \<and> (\<exists>res. run_task (startup ''/srv/artifacts'' Map.empty) ''t1'' ''t2'' ''t-0123abcd''
        (agent_payload ''summarize_code'' (''def a(x):'' @ [NL] @ ''def a(y):'' @ [NL]) ''demo.py'')
      = Inr (res, startup ''/srv/artifacts'' Map.empty)
     \<and> res_message res = Some ''This file defines: a, a'')"
proof -
  have cap: "req_capability (agent_payload ''summarize_code'' foo_bar_code ''demo.py'') = ''summarize_code''"
    by (simp add: agent_payload_def)
  have code: "dict_get (req_inputs (agent_payload ''summarize_code'' foo_bar_code ''demo.py''))
      ''code'' (JStr []) = JStr foo_bar_code"
    by (simp add: agent_payload_def dict_get_def)
  from summarize_code_result[OF cap code, of "startup ''/srv/artifacts'' Map.empty" "''t1''" "''t2''"
      "''t-0123abcd''"]
  have first: "\<exists>res. run_task (startup ''/srv/artifacts'' Map.empty) ''t1'' ''t2'' ''t-0123abcd''
        (agent_payload ''summarize_code'' foo_bar_code ''demo.py'')
      = Inr (res, startup ''/srv/artifacts'' Map.empty)
     \<and> res_facts res
         = [\<lparr>fact_type = ''functions'', fact_data = [(''names'', JList [JStr ''foo'', JStr ''bar''])]\<rparr>]
     \<and> res_artifacts res = []
     \<and> res_message res = Some ''This file defines: foo, bar''"
    unfolding foo_bar_names by auto
  let ?twice = "''def a(x):'' @ [NL] @ ''def a(y):'' @ [NL]"
  have cap2: "req_capability (agent_payload ''summarize_code'' ?twice ''demo.py'') = ''summarize_code''"
    by (simp add: agent_payload_def)
  have code2: "dict_get (req_inputs (agent_payload ''summarize_code'' ?twice ''demo.py''))
      ''code'' (JStr []) = JStr ?twice"
    by (simp add: agent_payload_def dict_get_def)
  have ok: "list_all (\<lambda>(name, sig). name \<noteq> [] \<and> list_all is_word name \<and> NL \<notin> set sig)
      [(''a'', ''x):''), (''a'', ''y):'')]"
    by (simp add: is_word_def cp_def NL_def)
  have shape: "?twice = concat (map (\<lambda>(name, sig). ''def '' @ name @ ''('' @ sig @ [NL])
      [(''a'', ''x):''), (''a'', ''y):'')])"
    by simp
  from summarize_code_result[OF cap2 code2, of "startup ''/srv/artifacts'' Map.empty" "''t1''" "''t2''"
      "''t-0123abcd''"]
  obtain res names where run: "run_task (startup ''/srv/artifacts'' Map.empty) ''t1'' ''t2'' ''t-0123abcd''
        (agent_payload ''summarize_code'' ?twice ''demo.py'') = Inr (res, startup ''/srv/artifacts'' Map.empty)"
    and msg: "res_message res = Some (''This file defines: ''
          @ (if names = [] then ''no functions detected'' else join '', '' names))"
    and gen: "\<forall>fs. list_all (\<lambda>(name, sig). name \<noteq> [] \<and> list_all is_word name \<and> NL \<notin> set sig) fs
            \<and> ?twice = concat (map (\<lambda>(name, sig). ''def '' @ name @ ''('' @ sig @ [NL]) fs)
          \<longrightarrow> names = map fst fs"
    by blast
  from gen ok shape have "names = map fst [(''a'', ''x):''), (''a'', ''y):'')]"
    by blast
  then have "res_message res = Some ''This file defines: a, a''"
    using msg by simp
  with run have second: "\<exists>res. run_task (startup ''/srv/artifacts'' Map.empty) ''t1'' ''t2'' ''t-0123abcd''
        (agent_payload ''summarize_code'' ?twice ''demo.py'')
      = Inr (res, startup ''/srv/artifacts'' Map.empty)
     \<and> res_message res = Some ''This file defines: a, a''"
    by blast
  from first second show ?thesis by blast
qed


section \<open>A test vector\<close>

text \<open>The digest of \<open>abc\<close>, as the standard gives it.\<close>

lemma sha256_text_abc:
  "sha256_text ''abc'' = ''ba7816bf8f01cfea414140de5dae2223b00361a396177a9cb410ff61f20015ad''"
  by code_simp

end
